theory Spec2Isabelle
  imports Complex_Main "HOL-Library.Sublist"
begin

section \<open>Text: Python \<open>str\<close> over the code points U+0000..U+00FF\<close>

text \<open>
  A Python \<open>str\<close> is a sequence of code points. It is modelled as a \<open>string\<close>, one
  \<open>char\<close> per code point, so the texts of the model are those whose code points lie in
  U+0000..U+00FF; \<open>len\<close> is \<open>length\<close>. The character classes below are the ones Python 3
  uses on that block: \<open>str.lower\<close>, \<open>str.isspace\<close> and the classes \<open>\s\<close>, \<open>\w\<close> of module
  \<open>re\<close> for \<open>str\<close> patterns.
\<close>

definition code_point :: "char \<Rightarrow> nat" where
  "code_point c = of_char c"

definition in_range :: "nat \<Rightarrow> nat \<Rightarrow> char \<Rightarrow> bool" where
  "in_range lo hi c = (lo \<le> code_point c \<and> code_point c \<le> hi)"

definition space_char :: char where
  "space_char = CHR '' ''"

text \<open>Characters that \<open>str.lower\<close> changes: A-Z, U+00C0..U+00D6, U+00D8..U+00DE.\<close>

definition isupper_char :: "char \<Rightarrow> bool" where
  "isupper_char c = (in_range 65 90 c \<or> in_range 192 214 c \<or> in_range 216 222 c)"

definition lower_char :: "char \<Rightarrow> char" where
  "lower_char c = (if isupper_char c then char_of (code_point c + 32) else c)"

definition lower :: "string \<Rightarrow> string" where
  "lower s = map lower_char s"

text \<open>\<open>str.isspace\<close>, and \<open>\s\<close> of \<open>re\<close>: U+0009..U+000D, U+001C..U+0020, U+0085, U+00A0.\<close>

definition isspace :: "char \<Rightarrow> bool" where
  "isspace c = (in_range 9 13 c \<or> in_range 28 32 c \<or> code_point c = 133 \<or> code_point c = 160)"

text \<open>\<open>str.isalpha\<close>: the letters of the block (the signs U+00D7 and U+00F7 are not letters).\<close>

definition isalpha :: "char \<Rightarrow> bool" where
  "isalpha c = (in_range 65 90 c \<or> in_range 97 122 c \<or> code_point c = 170 \<or>
     code_point c = 181 \<or> code_point c = 186 \<or> in_range 192 214 c \<or> in_range 216 246 c \<or>
     in_range 248 255 c)"

text \<open>\<open>str.isnumeric\<close> (it includes \<open>isdigit\<close> and \<open>isdecimal\<close>): 0-9, superscripts, fractions.\<close>

definition isnumeric :: "char \<Rightarrow> bool" where
  "isnumeric c = (in_range 48 57 c \<or> in_range 178 179 c \<or> code_point c = 185 \<or>
     in_range 188 190 c)"

text \<open>\<open>\w\<close> of \<open>re\<close>: alphanumeric (\<open>isalpha\<close> or \<open>isnumeric\<close>) or the underscore.\<close>

definition word_char :: "char \<Rightarrow> bool" where
  "word_char c = (isalpha c \<or> isnumeric c \<or> code_point c = 95)"

text \<open>The operator \<open>kw in text\<close> on strings: \<open>kw\<close> occurs as a contiguous substring.\<close>

fun contains :: "string \<Rightarrow> string \<Rightarrow> bool" where
  "contains kw [] = (kw = [])"
| "contains kw (c # cs) = (prefix kw (c # cs) \<or> contains kw cs)"

text \<open>The builtin \<open>any(p(x) for x in xs)\<close>.\<close>

definition any :: "('a \<Rightarrow> bool) \<Rightarrow> 'a list \<Rightarrow> bool" where
  "any p xs = list_ex p xs"

text \<open>
  \<open>s.replace(old, new)\<close>: the non-overlapping occurrences of \<open>old\<close>, found from the left,
  are replaced by \<open>new\<close>. With an empty \<open>old\<close> Python puts \<open>new\<close> before every character
  and at the end.
\<close>

function replace :: "string \<Rightarrow> string \<Rightarrow> string \<Rightarrow> string" where
  "replace old new s =
     (if old = [] then concat (map (\<lambda>c. new @ [c]) s) @ new
      else if s = [] then []
      else if prefix old s then new @ replace old new (drop (length old) s)
      else hd s # replace old new (tl s))"
  by pat_completeness auto
termination
  by (relation "measure (\<lambda>(old, new, s). length s)") auto

declare replace.simps [simp del]

section \<open>TextNormalizer\<close>

text \<open>
  \<open>re.sub(r"\s+", " ", t)\<close>: every maximal run of whitespace becomes one space.
\<close>

function collapse_spaces :: "string \<Rightarrow> string" where
  "collapse_spaces [] = []"
| "collapse_spaces (c # cs) =
     (if isspace c then space_char # collapse_spaces (dropWhile isspace cs)
      else c # collapse_spaces cs)"
  by pat_completeness auto
termination
  by (relation "measure length") (auto simp: length_dropWhile_le less_Suc_eq_le)

text \<open>\<open>str.strip()\<close>: whitespace is removed at both ends.\<close>

definition strip :: "string \<Rightarrow> string" where
  "strip s = rev (dropWhile isspace (rev (dropWhile isspace s)))"

text \<open>
  The characters that the class \<open>[^0-9a-zA-Z\u00C0-\u024F\u1E00-\u1EFF\s]\<close> does not
  match, on the block: digits, ASCII letters, U+00C0..U+00FF and whitespace.
\<close>

definition kept_char :: "char \<Rightarrow> bool" where
  "kept_char c = (in_range 48 57 c \<or> in_range 97 122 c \<or> in_range 65 90 c \<or>
     in_range 192 255 c \<or> isspace c)"

text \<open>
  \<open>normalize_title\<close>; the argument is \<open>None\<close> when the value is not a \<open>str\<close> (a missing
  cell read back as NaN, for example).
\<close>

definition normalize_title :: "string option \<Rightarrow> string" where
  "normalize_title title =
     (case title of
        None \<Rightarrow> []
      | Some s \<Rightarrow>
          (let t = lower s;
               t = map (\<lambda>c. if kept_char c then c else space_char) t;
               t = strip (collapse_spaces t)
           in t))"

text \<open>
  \<open>clean_domain\<close>; \<open>None\<close> is an absent value. \<open>not domain\<close> holds for \<open>None\<close> and for
  the empty string.
\<close>

definition clean_domain :: "string option \<Rightarrow> string" where
  "clean_domain domain =
     (case domain of
        None \<Rightarrow> ''unknown''
      | Some d \<Rightarrow>
          (if d = [] then ''unknown''
           else (let d = replace ''www.'' [] d; d = lower d in d)))"

section \<open>LocationFilter\<close>

text \<open>
  \<open>str.title\<close>: a character is title-cased when the character before it is not cased, and
  lower-cased otherwise. The title-case form of U+00DF is the two characters \<open>Ss\<close>. The
  title-case forms of U+00B5 and U+00FF are U+039C and U+0178, which lie outside the block;
  the model leaves these two characters as they are.
\<close>

definition iscased :: "char \<Rightarrow> bool" where
  "iscased c = (in_range 65 90 c \<or> in_range 97 122 c \<or> code_point c = 170 \<or>
     code_point c = 181 \<or> code_point c = 186 \<or> in_range 192 214 c \<or> in_range 216 246 c \<or>
     in_range 248 255 c)"

definition title_char :: "char \<Rightarrow> string" where
  "title_char c =
     (if code_point c = 223 then ''Ss''
      else if in_range 97 122 c \<or> in_range 224 246 c \<or> in_range 248 254 c
      then [char_of (code_point c - 32)] else [c])"

fun title_from :: "bool \<Rightarrow> string \<Rightarrow> string" where
  "title_from previous_is_cased [] = []"
| "title_from previous_is_cased (c # cs) =
     (if previous_is_cased then [lower_char c] else title_char c) @ title_from (iscased c) cs"

definition title :: "string \<Rightarrow> string" where
  "title s = title_from False s"

text \<open>
  The regular expressions of the filter are sequences of three kinds of item: \<open>\b\<close>, a
  literal (what \<open>re.escape\<close> makes of a gazetteer entry) and \<open>\s+\<close>. \<open>match_here\<close> is a
  match of the sequence starting at position \<open>i\<close>; \<open>re.search\<close> tries every position.
\<close>

datatype item = WordBoundary | Literal string | Spaces

definition word_at :: "string \<Rightarrow> nat \<Rightarrow> bool" where
  "word_at txt i = (i < length txt \<and> word_char (txt ! i))"

definition at_boundary :: "string \<Rightarrow> nat \<Rightarrow> bool" where
  "at_boundary txt i = ((0 < i \<and> word_at txt (i - 1)) \<noteq> word_at txt i)"

fun match_here :: "item list \<Rightarrow> string \<Rightarrow> nat \<Rightarrow> bool" where
  "match_here [] txt i = True"
| "match_here (WordBoundary # its) txt i = (at_boundary txt i \<and> match_here its txt i)"
| "match_here (Literal w # its) txt i =
     (take (length w) (drop i txt) = w \<and> match_here its txt (i + length w))"
| "match_here (Spaces # its) txt i =
     list_ex (\<lambda>k. match_here its txt (i + k))
       [1..<Suc (length (takeWhile isspace (drop i txt)))]"

definition search :: "item list \<Rightarrow> string \<Rightarrow> bool" where
  "search pattern txt = list_ex (match_here pattern txt) [0..<Suc (length txt)]"

definition di_indonesia :: "item list" where
  "di_indonesia = [WordBoundary, Literal ''di'', Spaces, Literal ''indonesia'', WordBoundary]"

definition whole_word :: "string \<Rightarrow> item list" where
  "whole_word lokasi = [WordBoundary, Literal lokasi, WordBoundary]"

text \<open>The gazetteer file of \<open>_load_lokasi_keywords\<close>; \<open>None\<close> when the file does not exist.\<close>

record gazetteer =
  provinsi :: "string list"
  kota_kabupaten :: "string list"
  istilah_umum :: "string list"

definition load_lokasi_keywords :: "gazetteer option \<Rightarrow> string list" where
  "load_lokasi_keywords lokasi_file =
     (case lokasi_file of
        Some data \<Rightarrow> provinsi data @ kota_kabupaten data @ istilah_umum data
      | None \<Rightarrow>
          [''indonesia'', ''jakarta'', ''jawa'', ''sumatera'', ''kalimantan'',
           ''sulawesi'', ''papua'', ''bali'', ''ntt'', ''ntb'', ''maluku''])"

text \<open>
  \<open>sorted(self.lokasi_keywords, key=len, reverse=True)\<close>: longest first; the sort is
  stable, so entries of equal length keep the order of the gazetteer.
\<close>

definition sorted_locations :: "string list \<Rightarrow> string list" where
  "sorted_locations lokasi_keywords = sort_key (\<lambda>lokasi. - int (length lokasi)) lokasi_keywords"

text \<open>The loop over the sorted entries.\<close>

fun scan_locations :: "string list \<Rightarrow> string \<Rightarrow> string" where
  "scan_locations [] text_lower = []"
| "scan_locations (lokasi # rest) text_lower =
     (if lokasi = ''indonesia'' then scan_locations rest text_lower
      else if search (whole_word lokasi) text_lower then title lokasi
      else scan_locations rest text_lower)"

text \<open>An argument that is not a \<open>str\<close> (\<open>None\<close> in the model) is read as the empty string.\<close>

definition str_or_empty :: "string option \<Rightarrow> string" where
  "str_or_empty v = (case v of Some s \<Rightarrow> s | None \<Rightarrow> [])"

definition extract_location :: "string list \<Rightarrow> string option \<Rightarrow> string option \<Rightarrow> string" where
  "extract_location lokasi_keywords judul ringkasan =
     (let judul = str_or_empty judul;
          ringkasan = str_or_empty ringkasan;
          text_full = judul @ '' '' @ ringkasan;
          text_lower = lower text_full
      in if search di_indonesia text_lower then ''Indonesia''
         else scan_locations (sorted_locations lokasi_keywords) text_lower)"

definition is_in_indonesia :: "string list \<Rightarrow> string option \<Rightarrow> string option \<Rightarrow> bool" where
  "is_in_indonesia lokasi_keywords judul ringkasan =
     (let lokasi = extract_location lokasi_keywords judul ringkasan in lokasi \<noteq> [])"

section \<open>DisasterFilter\<close>

definition DISASTER_KEYWORDS :: "string list" where
  "DISASTER_KEYWORDS =
    [''bencana alam'', ''banjir'', ''banjir bandang'', ''banjir rob'', ''gelombang pasang'',
     ''abrasi pantai'', ''tanah longsor'', ''longsor'', ''gempa bumi'', ''gempa'', ''tsunami'',
     ''kekeringan'', ''kebakaran hutan'', ''kebakaran lahan'', ''kebakaran permukiman'',
     ''kebakaran rumah'', ''angin puting beliung'', ''angin kencang'', ''puting beliung'',
     ''erupsi gunung api'', ''erupsi'', ''gunung meletus'', ''epidemi'', ''wabah penyakit'',
     ''keracunan massal'', ''keracunan'', ''kecelakaan kapal'', ''kecelakaan laut'',
     ''kecelakaan pesawat'', ''konflik sosial'', ''bentrok warga'']"

definition NEGATIVE_KEYWORDS :: "string list" where
  "NEGATIVE_KEYWORDS =
    [''real madrid'', ''barcelona'', ''liga'', ''serie a'', ''serie-a'', ''premier league'',
     ''bundesliga'', ''laliga'', ''liga champions'', ''liga inggris'', ''liga spanyol'',
     ''como'', ''gol'', ''pemain'', ''pelatih'', ''transfer'', ''musim depan'', ''popda'',
     ''porprov'', ''juara umum'', ''turnamen'', ''kompetisi'', ''kualifikasi'', ''film'',
     ''trailer'', ''serial'', ''episode'', ''tayang'', ''premiere'', ''festival film'',
     ''series'', ''drama korea'', ''drakor'', ''konser'', ''artis'', ''aktor'', ''aktris'',
     ''target juara'', ''pasang target'', ''target capaian'', ''pilkada'', ''pileg'',
     ''pilpres'', ''kampanye'', ''caleg'', ''dprd'', ''dpr ri'', ''menteri'', ''presiden'',
     ''pemilu'', ''pilkada serentak'', ''debat capres'', ''debat cawapres'', ''cabul'',
     ''asusila'', ''pelecehan'', ''cctv di kamar mandi'', ''proyek turap'', ''penopang jalan'',
     ''poros ekonomi'', ''investasi'', ''saham'', ''ihsg'', ''obligasi'', ''inflasi'',
     ''bursa'', ''pajak'', ''ekonomi tumbuh'', ''judol'', ''judi online'', ''perjudian'',
     ''narkoba'', ''bandar narkoba'']"

definition EPIDEMIC_CONTEXT :: "string list" where
  "EPIDEMIC_CONTEXT =
    [''penyakit'', ''virus'', ''bakteri'', ''epidemi'', ''endemik'', ''pandemi'', ''flu'',
     ''diare'', ''dbd'', ''demam berdarah'', ''covid'', ''covid-19'', ''hepatitis'', ''polio'',
     ''rabies'', ''infeksi'', ''positif'', ''kasus'', ''pasien'', ''rumah sakit'', ''isolasi'',
     ''karantina'', ''vaksin'', ''imunisasi'']"

definition epidemic_terms :: "string list" where
  "epidemic_terms = [''wabah'', ''epidemi'', ''pandemi'']"

definition is_disaster_event :: "string option \<Rightarrow> string option \<Rightarrow> bool" where
  "is_disaster_event judul ringkasan =
     (let judul = str_or_empty judul;
          ringkasan = str_or_empty ringkasan;
          text = lower (judul @ '' '' @ ringkasan);
          has_disaster_keyword = any (\<lambda>kw. contains kw text) DISASTER_KEYWORDS
      in if \<not> has_disaster_keyword then False
         else let has_negative_keyword = any (\<lambda>neg. contains neg text) NEGATIVE_KEYWORDS
           in if has_negative_keyword then False
              else if any (\<lambda>term. contains term text) epidemic_terms
                then (let has_epidemic_context = any (\<lambda>ctx. contains ctx text) EPIDEMIC_CONTEXT
                      in if \<not> has_epidemic_context then False else True)
                else True)"

text \<open>The dictionary of \<open>get_disaster_type\<close>, in its order of insertion.\<close>

definition disaster_categories :: "(string \<times> string list) list" where
  "disaster_categories =
    [(''Banjir'', [''banjir'', ''banjir bandang'', ''banjir rob'']),
     (''Gempa Bumi'', [''gempa bumi'', ''gempa'', ''lindu'']),
     (''Tsunami'', [''tsunami'']),
     (''Tanah Longsor'', [''tanah longsor'', ''longsor'']),
     (''Kebakaran'', [''kebakaran hutan'', ''kebakaran lahan'', ''kebakaran rumah'',
        ''kebakaran permukiman'']),
     (''Angin Kencang'', [''angin puting beliung'', ''angin kencang'', ''puting beliung'']),
     (''Erupsi Gunung Api'', [''erupsi'', ''gunung meletus'', ''erupsi gunung api'']),
     (''Kekeringan'', [''kekeringan'']),
     (''Epidemi'', [''wabah'', ''epidemi'', ''pandemi'']),
     (''Kecelakaan'', [''kecelakaan kapal'', ''kecelakaan laut'', ''kecelakaan pesawat'']),
     (''Konflik Sosial'', [''konflik sosial'', ''bentrok warga''])]"

text \<open>The loop over \<open>disaster_categories.items()\<close>, with its final \<open>return "Lainnya"\<close>.\<close>

fun first_category :: "(string \<times> string list) list \<Rightarrow> string \<Rightarrow> string" where
  "first_category [] text = ''Lainnya''"
| "first_category ((category, keywords) # rest) text =
     (if any (\<lambda>kw. contains kw text) keywords then category else first_category rest text)"

text \<open>
  \<open>get_disaster_type\<close> formats its arguments into the text without a type check; the model
  takes the two strings.
\<close>

definition get_disaster_type :: "string \<Rightarrow> string \<Rightarrow> string" where
  "get_disaster_type judul ringkasan =
     (let text = lower (judul @ '' '' @ ringkasan) in first_category disaster_categories text)"

section \<open>GoogleNewsScraper: the ingestion pipeline\<close>

text \<open>
  A cell of a data frame: missing (NaN, what \<open>read_csv\<close> gives for an empty field), a
  string, or a number (what \<open>read_csv\<close> gives for a column of numerals). Two missing
  cells count as equal in \<open>drop_duplicates\<close>; a number and a string never are.
\<close>

datatype cell = NaN | Text string | Number rat

text \<open>The value of a cell as an argument of the filters: \<open>None\<close> when it is not a \<open>str\<close>.\<close>

definition str_of_cell :: "cell \<Rightarrow> string option" where
  "str_of_cell v = (case v of Text s \<Rightarrow> Some s | _ \<Rightarrow> None)"

text \<open>
  A row of the data frame. The two instants are integers on the time line, \<open>None\<close> for
  NaT; \<open>tz_convert\<close> changes the zone of an instant, not the instant.
\<close>

record article =
  judul :: cell
  link :: cell
  ringkasan :: cell
  tanggal_publikasi :: cell
  sumber :: cell
  kata_kunci :: cell
  domain :: cell
  lokasi_kejadian :: cell
  jenis_bencana :: cell
  judul_bersih :: cell
  datetime_utc :: "int option"
  datetime_wib :: "int option"
  datetime_wib_excel :: cell
  tanggal_wib :: cell
  waktu_wib :: cell

text \<open>
  A data frame: the names of its columns and its rows. A row has a cell for every column
  of the pipeline; the cells of a column that the frame does not have are missing.
\<close>

record frame =
  columns :: "string list"
  records :: "article list"

text \<open>The exception that pandas raises when a column is looked up that the frame lacks.\<close>

datatype error = KeyError "string list"

record statistics =
  articles_fetched :: nat
  articles_after_location_filter :: nat
  articles_after_disaster_filter :: nat
  articles_after_dedup :: nat
  articles_with_invalid_dates :: nat
  keywords_scraped :: nat
  keywords_failed :: nat

text \<open>A row of a log of skipped articles: the article and the two columns added to it.\<close>

record skipped =
  entry :: article
  skipped_at :: string
  skip_reason :: string

text \<open>
  The state the pipeline works on: the statistics of the scraper and the three files, each
  \<open>None\<close> while it does not exist. The historical file holds the frame that \<open>read_csv\<close>
  loads from it.
\<close>

record state =
  stats :: statistics
  invalid_dates_file :: "skipped list option"
  skipped_articles_file :: "skipped list option"
  csv_output :: "frame option"

text \<open>
  What the pipeline takes from pandas, numpy and the clock. \<open>to_datetime col v\<close> is the
  instant that \<open>pd.to_datetime(col, utc=True, errors="coerce")\<close> gives for a cell \<open>v\<close> of
  the column \<open>col\<close>, \<open>None\<close> (NaT) when the cell does not parse; \<open>strftime_wib fmt t\<close> is
  the instant \<open>t\<close> formatted in the zone Asia/Jakarta; \<open>utcnow\<close> is the reading of the
  clock, in ISO format; \<open>argsort xs\<close> is the list of positions that numpy's quicksort
  gives for the values \<open>xs\<close>, in ascending order of value (which of two positions of
  equal value comes first is left to the library).
\<close>

record library =
  to_datetime :: "cell list \<Rightarrow> cell \<Rightarrow> int option"
  strftime_wib :: "string \<Rightarrow> int \<Rightarrow> string"
  utcnow :: string
  argsort :: "int list \<Rightarrow> nat list"

definition save_skipped_articles :: "library \<Rightarrow> state \<Rightarrow> article list \<Rightarrow> string \<Rightarrow> state" where
  "save_skipped_articles lib st df reason =
     (let df_log = map (\<lambda>r. \<lparr>entry = r, skipped_at = utcnow lib, skip_reason = reason\<rparr>) df
      in if reason = ''invalid_dates''
         then st\<lparr>invalid_dates_file :=
                  Some (case invalid_dates_file st of Some rows \<Rightarrow> rows @ df_log | None \<Rightarrow> df_log)\<rparr>
         else st\<lparr>skipped_articles_file :=
                  Some (case skipped_articles_file st of Some rows \<Rightarrow> rows @ df_log | None \<Rightarrow> df_log)\<rparr>)"

text \<open>\<open>Series.dt.strftime\<close>: the formatted instant, missing for NaT.\<close>

definition strftime_cell :: "library \<Rightarrow> string \<Rightarrow> int option \<Rightarrow> cell" where
  "strftime_cell lib fmt p = (case p of Some t \<Rightarrow> Text (strftime_wib lib fmt t) | None \<Rightarrow> NaN)"

text \<open>\<open>process_datetime\<close>, on the rows of a frame that has the column of dates.\<close>

definition process_datetime :: "library \<Rightarrow> state \<Rightarrow> article list \<Rightarrow> article list \<times> state" where
  "process_datetime lib st df =
     (if df = [] then (df, st)
      else
        let col = map tanggal_publikasi df;
            df = map (\<lambda>r. r\<lparr>datetime_utc := to_datetime lib col (tanggal_publikasi r)\<rparr>) df;
            invalid_dates = filter (\<lambda>r. datetime_utc r = None) df;
            st = st\<lparr>stats := (stats st)\<lparr>articles_with_invalid_dates := length invalid_dates\<rparr>\<rparr>;
            st = (if invalid_dates \<noteq> []
                  then save_skipped_articles lib st invalid_dates ''invalid_dates'' else st);
            df = filter (\<lambda>r. datetime_utc r \<noteq> None) df;
            df = map (\<lambda>r. r\<lparr>datetime_wib := datetime_utc r\<rparr>) df;
            df = map (\<lambda>r. r\<lparr>datetime_wib_excel :=
                   strftime_cell lib ''%d-%m-%Y %H:%M:%S'' (datetime_wib r)\<rparr>) df;
            df = map (\<lambda>r. r\<lparr>tanggal_wib := strftime_cell lib ''%d-%m-%Y'' (datetime_wib r)\<rparr>) df;
            df = map (\<lambda>r. r\<lparr>waktu_wib := strftime_cell lib ''%H:%M:%S'' (datetime_wib r)\<rparr>) df
        in (df, st))"

text \<open>
  \<open>drop_duplicates(subset=...)\<close> keeps the first row of every key; two missing cells count
  as equal. \<open>seen\<close> holds the keys met so far.
\<close>

fun drop_duplicates_from :: "'k list \<Rightarrow> ('a \<Rightarrow> 'k) \<Rightarrow> 'a list \<Rightarrow> 'a list" where
  "drop_duplicates_from seen key [] = []"
| "drop_duplicates_from seen key (r # rs) =
     (if key r \<in> set seen then drop_duplicates_from seen key rs
      else r # drop_duplicates_from (key r # seen) key rs)"

definition drop_duplicates :: "('a \<Rightarrow> 'k) \<Rightarrow> 'a list \<Rightarrow> 'a list" where
  "drop_duplicates key df = drop_duplicates_from [] key df"

definition dedup_key :: "article \<Rightarrow> cell \<times> cell" where
  "dedup_key r = (link r, judul_bersih r)"

text \<open>\<open>deduplicate\<close>, on the rows of a frame that has the two columns of the key.\<close>

definition deduplicate :: "state \<Rightarrow> article list \<Rightarrow> article list \<times> state" where
  "deduplicate st df =
     (if df = [] then (df, st)
      else
        let before_dedup = length df;
            df = drop_duplicates dedup_key df;
            after_dedup = length df
        in (df, st\<lparr>stats := (stats st)\<lparr>articles_after_dedup := after_dedup\<rparr>\<rparr>))"

text \<open>
  \<open>sort_values("datetime_wib", ascending=False)\<close>, as pandas computes it: the rows that
  have an instant are reversed, put in ascending order by \<open>argsort\<close> and reversed again;
  the rows without an instant come last.
\<close>

definition instant :: "article \<Rightarrow> int" where
  "instant r = (case datetime_wib r of Some t \<Rightarrow> t | None \<Rightarrow> 0)"

definition sort_values_desc :: "library \<Rightarrow> article list \<Rightarrow> article list" where
  "sort_values_desc lib df =
     (let non_nans = rev (filter (\<lambda>r. datetime_wib r \<noteq> None) df);
          indexer = argsort lib (map instant non_nans)
      in rev (map (\<lambda>i. non_nans ! i) indexer) @ filter (\<lambda>r. datetime_wib r = None) df)"

text \<open>\<open>DataFrame.empty\<close>: the frame has no row or no column.\<close>

definition is_empty :: "frame \<Rightarrow> bool" where
  "is_empty df = (records df = [] \<or> columns df = [])"

text \<open>The columns of a frame after columns have been assigned to it: new names go last.\<close>

definition assign_columns :: "string list \<Rightarrow> string list \<Rightarrow> string list" where
  "assign_columns cols names = cols @ filter (\<lambda>c. c \<notin> set cols) (remdups names)"

text \<open>\<open>pd.concat([a, b], ignore_index=True)\<close>: the rows of \<open>a\<close>, then those of \<open>b\<close>.\<close>

definition concat_frames :: "frame \<Rightarrow> frame \<Rightarrow> frame" where
  "concat_frames a b =
     \<lparr>columns = assign_columns (columns a) (columns b), records = records a @ records b\<rparr>"

text \<open>
  The calls of \<open>process_datetime\<close> and \<open>deduplicate\<close> on a frame: an empty frame is
  returned as it is; otherwise the columns that the function reads must be there.
\<close>

definition process_datetime_df :: "library \<Rightarrow> state \<Rightarrow> frame \<Rightarrow> (error + frame) \<times> state" where
  "process_datetime_df lib st df =
     (if is_empty df then (Inr df, st)
      else if ''tanggal_publikasi'' \<notin> set (columns df)
      then (Inl (KeyError [''tanggal_publikasi'']), st)
      else (case process_datetime lib st (records df) of
              (rs, st) \<Rightarrow>
                (Inr \<lparr>columns = assign_columns (columns df)
                        [''datetime_utc'', ''datetime_wib'', ''datetime_wib_excel'',
                         ''tanggal_wib'', ''waktu_wib''],
                      records = rs\<rparr>, st)))"

definition deduplicate_df :: "state \<Rightarrow> frame \<Rightarrow> (error + frame) \<times> state" where
  "deduplicate_df st df =
     (if is_empty df then (Inr df, st)
      else if filter (\<lambda>c. c \<notin> set (columns df)) [''link'', ''judul_bersih''] \<noteq> []
      then (Inl (KeyError (filter (\<lambda>c. c \<notin> set (columns df)) [''link'', ''judul_bersih''])), st)
      else (case deduplicate st (records df) of
              (rs, st) \<Rightarrow> (Inr (df\<lparr>records := rs\<rparr>), st)))"

text \<open>
  The first step of \<open>merge_with_existing\<close>: the frame \<open>df_all\<close>, the historical frame
  (with the key computed when its column is absent) followed by the new frame, or the new
  frame alone when there is no historical file.
\<close>

definition concat_with_existing :: "state \<Rightarrow> frame \<Rightarrow> error + frame" where
  "concat_with_existing st df_new =
     (case csv_output st of
        Some df_old \<Rightarrow>
          (if ''judul_bersih'' \<notin> set (columns df_old)
           then (if ''judul'' \<notin> set (columns df_old) then Inl (KeyError [''judul''])
                 else Inr (concat_frames
                   \<lparr>columns = columns df_old @ [''judul_bersih''],
                    records =
                      map (\<lambda>r. r\<lparr>judul_bersih :=
                             Text (normalize_title (str_of_cell (judul r)))\<rparr>)
                        (records df_old)\<rparr>
                   df_new))
           else Inr (concat_frames df_old df_new))
      | None \<Rightarrow> Inr df_new)"

text \<open>
  \<open>merge_with_existing\<close>. The result is the merged frame, or the exception that stops the
  merge, together with the state as the steps before it have left it.
\<close>

definition merge_with_existing ::
  "library \<Rightarrow> state \<Rightarrow> frame \<Rightarrow> (error + frame) \<times> state" where
  "merge_with_existing lib st df_new =
     (case concat_with_existing st df_new of
        Inl e \<Rightarrow> (Inl e, st)
      | Inr df_all \<Rightarrow>
          (case process_datetime_df lib st df_all of
             (Inl e, st) \<Rightarrow> (Inl e, st)
           | (Inr df_all, st) \<Rightarrow>
               (case deduplicate_df st df_all of
                  (Inl e, st) \<Rightarrow> (Inl e, st)
                | (Inr df_all, st) \<Rightarrow>
                    (if ''datetime_wib'' \<notin> set (columns df_all)
                     then (Inl (KeyError [''datetime_wib'']), st)
                     else (Inr (df_all\<lparr>records := sort_values_desc lib (records df_all)\<rparr>),
                           st)))))"

text \<open>
  The row \<open>r\<close> with the instant \<open>p\<close> in its date columns: what \<open>process_datetime\<close>
  writes into a row (used to state its result).
\<close>

definition with_instants :: "library \<Rightarrow> article \<Rightarrow> int option \<Rightarrow> article" where
  "with_instants lib r p =
     r\<lparr>datetime_utc := p, datetime_wib := p,
       datetime_wib_excel := strftime_cell lib ''%d-%m-%Y %H:%M:%S'' p,
       tanggal_wib := strftime_cell lib ''%d-%m-%Y'' p,
       waktu_wib := strftime_cell lib ''%H:%M:%S'' p\<rparr>"

text \<open>
  The rows that \<open>merge_with_existing\<close> loads: none when there is no historical file; the
  rows of the file otherwise, with \<open>judul_bersih\<close> computed from the title when the file
  has no such column (used to state its result).
\<close>

definition loaded_rows :: "state \<Rightarrow> article list" where
  "loaded_rows st =
     (case csv_output st of
        None \<Rightarrow> []
      | Some df_old \<Rightarrow>
          map (\<lambda>r. if ''judul_bersih'' \<in> set (columns df_old) then r
                   else r\<lparr>judul_bersih := Text (normalize_title (str_of_cell (judul r)))\<rparr>)
            (records df_old))"

text \<open>The rows of a result of the merge; \<open>None\<close> when it is an exception.\<close>

definition merged_rows :: "(error + frame) \<times> state \<Rightarrow> article list option" where
  "merged_rows result = (case fst result of Inr df \<Rightarrow> Some (records df) | Inl e \<Rightarrow> None)"

section \<open>Sample data\<close>

text \<open>The statistics of a new scraper, as \<open>__init__\<close> sets them.\<close>

definition initial_stats :: statistics where
  "initial_stats =
     \<lparr>articles_fetched = 0, articles_after_location_filter = 0,
      articles_after_disaster_filter = 0, articles_after_dedup = 0,
      articles_with_invalid_dates = 0, keywords_scraped = 0, keywords_failed = 0\<rparr>"

text \<open>A state with no file written yet.\<close>

definition initial_state :: state where
  "initial_state =
     \<lparr>stats = initial_stats, invalid_dates_file = None, skipped_articles_file = None,
      csv_output = None\<rparr>"

text \<open>
  An article with the given link, title, normalized title and publication date, as the
  filters leave it; its instants are not computed yet.
\<close>

definition sample_article :: "string \<Rightarrow> string \<Rightarrow> cell \<Rightarrow> string \<Rightarrow> article" where
  "sample_article url ttl key published =
     \<lparr>judul = Text ttl, link = Text url, ringkasan = Text ''banjir di jakarta'',
      tanggal_publikasi = Text published, sumber = Text ''Detik'', kata_kunci = Text ''banjir'',
      domain = Text ''detik.com'', lokasi_kejadian = Text ''Jakarta'',
      jenis_bencana = Text ''Banjir'', judul_bersih = key,
      datetime_utc = None, datetime_wib = None, datetime_wib_excel = NaN,
      tanggal_wib = NaN, waktu_wib = NaN\<rparr>"

text \<open>The columns of a frame that the pipeline has processed, in the order it adds them.\<close>

definition pipeline_columns :: "string list" where
  "pipeline_columns =
     [''judul'', ''link'', ''ringkasan'', ''tanggal_publikasi'', ''sumber'', ''kata_kunci'',
      ''domain'', ''lokasi_kejadian'', ''jenis_bencana'', ''judul_bersih'', ''datetime_utc'',
      ''datetime_wib'', ''datetime_wib_excel'', ''tanggal_wib'', ''waktu_wib'']"

text \<open>
  A library that parses two dates (to seconds since 1970) and nothing else, whose formatted
  dates are left blank, and whose \<open>argsort\<close> keeps the positions of equal values in order.
\<close>

definition sample_library :: library where
  "sample_library =
     \<lparr>to_datetime = (\<lambda>col v.
        if v = Text ''2024-01-01T00:00:00+00:00'' then Some 1704067200
        else if v = Text ''2024-01-02T00:00:00+00:00'' then Some 1704153600
        else None),
      strftime_wib = (\<lambda>fmt t. []),
      utcnow = ''2024-01-03T00:00:00+00:00'',
      argsort = (\<lambda>xs. sort_key (\<lambda>i. xs ! i) [0..<length xs])\<rparr>"

section \<open>Properties\<close>

subsection \<open>Substrings and duplicates\<close>

lemma contains_sublist: "contains kw s \<longleftrightarrow> sublist kw s"
  by (induction s) (auto simp: sublist_Cons_right)

lemma any_contains_iff: "any (\<lambda>kw. contains kw s) kws \<longleftrightarrow> (\<exists>kw\<in>set kws. sublist kw s)"
  by (simp add: any_def list_ex_iff contains_sublist)

lemma drop_duplicates_from_keys:
  "set (map key (drop_duplicates_from seen key rs)) \<inter> set seen = {} \<and>
   distinct (map key (drop_duplicates_from seen key rs))"
proof (induction rs arbitrary: seen)
  case Nil
  then show ?case by simp
next
  case (Cons r rs)
  show ?case
  proof (cases "key r \<in> set seen")
    case True
    then show ?thesis using Cons.IH [of seen] by simp
  next
    case False
    then show ?thesis using Cons.IH [of "key r # seen"] by auto
  qed
qed

lemma drop_duplicates_from_fixed:
  "distinct (map key rs) \<Longrightarrow> set (map key rs) \<inter> set seen = {} \<Longrightarrow>
   drop_duplicates_from seen key rs = rs"
  by (induction rs arbitrary: seen) auto

lemma drop_duplicates_from_idem:
  "drop_duplicates_from seen key (drop_duplicates_from seen key rs) =
   drop_duplicates_from seen key rs"
  using drop_duplicates_from_keys [of key seen rs]
  by (intro drop_duplicates_from_fixed) auto

lemma drop_duplicates_from_find:
  "k \<notin> set seen \<Longrightarrow>
   find (\<lambda>r. key r = k) (drop_duplicates_from seen key rs) = find (\<lambda>r. key r = k) rs"
  by (induction rs arbitrary: seen) auto

lemma drop_duplicates_from_set:
  "set (drop_duplicates_from seen key rs) \<subseteq> set rs"
  by (induction rs arbitrary: seen) auto

lemma drop_duplicates_from_key_set:
  "key ` set (drop_duplicates_from seen key rs) = key ` set rs - set seen"
  by (induction rs arbitrary: seen) auto

lemma drop_duplicates_empty_iff: "drop_duplicates key df = [] \<longleftrightarrow> df = []"
  by (cases df) (simp_all add: drop_duplicates_def)

text \<open>
  Claim C9. Deduplication is idempotent: the frame that \<open>deduplicate\<close> returns is left as it is by
  a second \<open>deduplicate\<close>, whatever the state of the statistics.
\<close>

theorem deduplicate_idempotent:
  "fst (deduplicate st' (fst (deduplicate st df))) = fst (deduplicate st df)"
  by (simp add: deduplicate_def Let_def drop_duplicates_def drop_duplicates_from_idem)

text \<open>
  Claim C10. \<open>is_in_indonesia\<close> is true exactly when \<open>extract_location\<close> returns a non-empty string
  on the same title and summary.
\<close>

theorem is_in_indonesia_iff_location:
  "is_in_indonesia lokasi_keywords jud ring \<longleftrightarrow>
   extract_location lokasi_keywords jud ring \<noteq> []"
  by (simp add: is_in_indonesia_def)

lemma first_category_hit:
  "i < length cats \<Longrightarrow> any (\<lambda>kw. contains kw body) (snd (cats ! i)) \<Longrightarrow>
   \<forall>j<i. \<not> any (\<lambda>kw. contains kw body) (snd (cats ! j)) \<Longrightarrow>
   first_category cats body = fst (cats ! i)"
proof (induction cats body arbitrary: i rule: first_category.induct)
  case (1 body)
  then show ?case by simp
next
  case (2 cat kws rest body)
  show ?case
  proof (cases i)
    case 0
    then show ?thesis using "2.prems" by simp
  next
    case (Suc n)
    have no: "\<not> any (\<lambda>kw. contains kw body) kws"
      using "2.prems"(3) Suc by force
    have "first_category rest body = fst (rest ! n)"
    proof (rule "2.IH" [OF no])
      show "n < length rest" using "2.prems"(1) Suc by simp
      show "any (\<lambda>kw. contains kw body) (snd (rest ! n))" using "2.prems"(2) Suc by simp
      show "\<forall>j<n. \<not> any (\<lambda>kw. contains kw body) (snd (rest ! j))"
        using "2.prems"(3) Suc by force
    qed
    then show ?thesis using no Suc by simp
  qed
qed

lemma first_category_none:
  "\<forall>i<length cats. \<not> any (\<lambda>kw. contains kw body) (snd (cats ! i)) \<Longrightarrow>
   first_category cats body = ''Lainnya''"
proof (induction cats body rule: first_category.induct)
  case (1 body)
  then show ?case by simp
next
  case (2 cat kws rest body)
  have "\<not> any (\<lambda>kw. contains kw body) kws" using "2.prems" by force
  moreover have "\<forall>i<length rest. \<not> any (\<lambda>kw. contains kw body) (snd (rest ! i))"
    using "2.prems" by force
  ultimately show ?case using "2.IH" by simp
qed

text \<open>
  Claim C6. The categories are tried in the declared order Banjir, ..., Konflik Sosial; the result
  is the first category one of whose keywords is a substring of the lower-cased title and
  summary, and \<open>Lainnya\<close> when no category has such a keyword.
\<close>

theorem get_disaster_type_first_match:
  "map fst disaster_categories =
     [''Banjir'', ''Gempa Bumi'', ''Tsunami'', ''Tanah Longsor'', ''Kebakaran'',
      ''Angin Kencang'', ''Erupsi Gunung Api'', ''Kekeringan'', ''Epidemi'', ''Kecelakaan'',
      ''Konflik Sosial''] \<and>
   (\<forall>i<length disaster_categories.
      (\<exists>kw\<in>set (snd (disaster_categories ! i)). sublist kw (lower (jud @ '' '' @ ring))) \<and>
      (\<forall>j<i. \<forall>kw\<in>set (snd (disaster_categories ! j)).
         \<not> sublist kw (lower (jud @ '' '' @ ring))) \<longrightarrow>
      get_disaster_type jud ring = fst (disaster_categories ! i)) \<and>
   ((\<forall>i<length disaster_categories. \<forall>kw\<in>set (snd (disaster_categories ! i)).
       \<not> sublist kw (lower (jud @ '' '' @ ring))) \<longrightarrow>
    get_disaster_type jud ring = ''Lainnya'')"
proof (intro conjI allI impI)
  show "map fst disaster_categories =
     [''Banjir'', ''Gempa Bumi'', ''Tsunami'', ''Tanah Longsor'', ''Kebakaran'',
      ''Angin Kencang'', ''Erupsi Gunung Api'', ''Kekeringan'', ''Epidemi'', ''Kecelakaan'',
      ''Konflik Sosial'']"
    by (simp add: disaster_categories_def)
next
  fix i
  assume "i < length disaster_categories"
    and "(\<exists>kw\<in>set (snd (disaster_categories ! i)). sublist kw (lower (jud @ '' '' @ ring))) \<and>
      (\<forall>j<i. \<forall>kw\<in>set (snd (disaster_categories ! j)).
         \<not> sublist kw (lower (jud @ '' '' @ ring)))"
  then show "get_disaster_type jud ring = fst (disaster_categories ! i)"
    unfolding get_disaster_type_def Let_def
    by (intro first_category_hit) (auto simp: any_contains_iff)
next
  assume "\<forall>i<length disaster_categories. \<forall>kw\<in>set (snd (disaster_categories ! i)).
       \<not> sublist kw (lower (jud @ '' '' @ ring))"
  then show "get_disaster_type jud ring = ''Lainnya''"
    unfolding get_disaster_type_def Let_def
    by (intro first_category_none) (auto simp: any_contains_iff)
qed

text \<open>
  Claim C2. \<open>is_disaster_event\<close> is true exactly when the lower-cased text contains a positive
  keyword, contains no negative keyword and, if it contains one of the terms wabah, epidemi,
  pandemi, also contains a term of the epidemic context.
\<close>

theorem is_disaster_event_iff:
  "is_disaster_event jud ring \<longleftrightarrow>
     (\<exists>kw\<in>set DISASTER_KEYWORDS.
        sublist kw (lower (str_or_empty jud @ '' '' @ str_or_empty ring))) \<and>
     \<not> (\<exists>neg\<in>set NEGATIVE_KEYWORDS.
        sublist neg (lower (str_or_empty jud @ '' '' @ str_or_empty ring))) \<and>
     ((\<exists>term\<in>set [''wabah'', ''epidemi'', ''pandemi''].
        sublist term (lower (str_or_empty jud @ '' '' @ str_or_empty ring))) \<longrightarrow>
      (\<exists>ctx\<in>set EPIDEMIC_CONTEXT.
        sublist ctx (lower (str_or_empty jud @ '' '' @ str_or_empty ring))))"
  unfolding is_disaster_event_def Let_def any_contains_iff epidemic_terms_def
  by (simp only: simp_thms if_True if_False split: if_splits) blast

lemma replace_absent:
  "old \<noteq> [] \<Longrightarrow> \<not> sublist old s \<Longrightarrow> replace old new s = s"
proof (induction old new s rule: replace.induct)
  case (1 old new s)
  show ?case
  proof (cases s)
    case Nil
    then show ?thesis using "1.prems" by (simp add: replace.simps)
  next
    case (Cons c cs)
    have np: "\<not> prefix old s" using "1.prems"(2) by (auto dest: prefix_imp_sublist)
    have ns: "\<not> sublist old cs" using "1.prems"(2) Cons by (simp add: sublist_Cons_right)
    have "replace old new (tl s) = tl s"
      using "1.IH"(2) "1.prems"(1) np ns Cons by simp
    then show ?thesis
      using "1.prems"(1) np Cons by (subst replace.simps) simp
  qed
qed

lemma replace_leading:
  "old \<noteq> [] \<Longrightarrow> \<not> sublist old rest \<Longrightarrow> replace old new (old @ rest) = new @ rest"
  by (subst replace.simps) (simp add: replace_absent)

text \<open>
  Claim C5, as the code has it. An absent or empty domain gives \<open>unknown\<close>. Any other
  domain is returned with every occurrence of the lower-case substring \<open>www.\<close> removed
  (found from the left, before the letters are lower-cased) and then lower-cased; so a domain
  without \<open>www.\<close> is lower-cased only, and a domain that starts with \<open>www.\<close> and
  has no other occurrence loses that prefix.
\<close>

theorem clean_domain_removes_www:
  "clean_domain None = ''unknown'' \<and> clean_domain (Some []) = ''unknown'' \<and>
   (d \<noteq> [] \<longrightarrow> clean_domain (Some d) = lower (replace ''www.'' [] d)) \<and>
   (d \<noteq> [] \<and> \<not> sublist ''www.'' d \<longrightarrow> clean_domain (Some d) = lower d) \<and>
   (\<not> sublist ''www.'' rest \<longrightarrow> clean_domain (Some (''www.'' @ rest)) = lower rest)"
proof -
  have a: "\<not> sublist ''www.'' rest \<Longrightarrow> replace ''www.'' [] (''www.'' @ rest) = [] @ rest"
    by (rule replace_leading) simp_all
  show ?thesis
    using a by (auto simp: clean_domain_def Let_def replace_absent)
qed

text \<open>
  The claim as it was stated fails: an upper-case \<open>WWW.\<close> prefix is kept, and an
  occurrence of \<open>www.\<close> that is not leading is removed.
\<close>

theorem clean_domain_counterexample:
  "clean_domain (Some ''WWW.Example.com'') = ''www.example.com'' \<and>
   clean_domain (Some ''news.www.detik.com'') = ''news.detik.com''"
  by code_simp

theorem clean_domain_removes_www_witness:
  "clean_domain (Some ''www.detik.com'') = ''detik.com''"
proof -
  have n: "\<not> sublist ''www.'' ''detik.com''"
    unfolding contains_sublist [symmetric] by code_simp
  have l: "lower ''detik.com'' = ''detik.com''" by code_simp
  have "\<not> sublist ''www.'' ''detik.com'' \<longrightarrow>
      clean_domain (Some (''www.'' @ ''detik.com'')) = lower ''detik.com''"
    using clean_domain_removes_www [of "''www.detik.com''" "''detik.com''"] by blast
  then show ?thesis using n l by simp
qed

lemma lower_char_fixed: "lower_char (lower_char c) = lower_char c"
  unfolding lower_char_def isupper_char_def in_range_def code_point_def
  by (auto simp: of_char_of take_bit_eq_mod)

lemma lower_char_space: "lower_char space_char = space_char"
  unfolding lower_char_def isupper_char_def in_range_def code_point_def space_char_def
  by simp

lemma normalized_char:
  fixes c :: char
  defines "d \<equiv> (if kept_char (lower_char c) then lower_char c else space_char)"
  shows "lower_char d = d \<and>
     (isalpha d \<or> in_range 48 57 d \<or> isspace d \<or> code_point d = 215 \<or> code_point d = 247)"
proof (cases "kept_char (lower_char c)")
  case True
  have "lower_char (lower_char c) = lower_char c" by (rule lower_char_fixed)
  moreover have "isalpha (lower_char c) \<or> in_range 48 57 (lower_char c) \<or>
      isspace (lower_char c) \<or> code_point (lower_char c) = 215 \<or>
      code_point (lower_char c) = 247"
    using True unfolding kept_char_def isalpha_def in_range_def by auto
  ultimately show ?thesis using True by (simp add: d_def)
next
  case False
  have "isspace space_char"
    by (simp add: isspace_def in_range_def code_point_def space_char_def)
  then show ?thesis using False by (simp add: d_def lower_char_space)
qed

lemma collapse_spaces_set:
  "c \<in> set (collapse_spaces s) \<Longrightarrow> (c \<in> set s \<and> \<not> isspace c) \<or> c = space_char"
proof (induction s rule: collapse_spaces.induct)
  case 1
  then show ?case by simp
next
  case (2 x xs)
  then show ?case by (auto split: if_splits dest: set_dropWhileD)
qed

lemma collapse_spaces_head:
  "collapse_spaces (dropWhile isspace cs) = [] \<or>
   \<not> isspace (hd (collapse_spaces (dropWhile isspace cs)))"
proof (cases "dropWhile isspace cs")
  case Nil
  have "collapse_spaces [] = []" by simp
  then show ?thesis unfolding Nil by (rule disjI1)
next
  case (Cons y ys)
  then have "\<not> isspace y" using hd_dropWhile [of isspace cs] by simp
  then show ?thesis using Cons by simp
qed

lemma collapse_spaces_no_run:
  "isspace a \<Longrightarrow> isspace b \<Longrightarrow> \<not> sublist [a, b] (collapse_spaces s)"
proof (induction s rule: collapse_spaces.induct)
  case 1
  then show ?case by simp
next
  case (2 x xs)
  show ?case
  proof (cases "isspace x")
    case True
    have "\<not> prefix [a, b] (space_char # collapse_spaces (dropWhile isspace xs))"
      using collapse_spaces_head [of xs] "2.prems"(2)
      by (cases "collapse_spaces (dropWhile isspace xs)") auto
    then show ?thesis using True "2.IH"(1) "2.prems" by (simp add: sublist_Cons_right)
  next
    case False
    then have "\<not> prefix [a, b] (x # collapse_spaces xs)" using "2.prems"(1) by auto
    then show ?thesis using False "2.IH"(2) "2.prems" by (simp add: sublist_Cons_right)
  qed
qed

lemma strip_sublist: "sublist (strip s) s"
proof -
  have "suffix (dropWhile isspace s) s" by (rule suffix_dropWhile)
  moreover have "prefix (strip s) (dropWhile isspace s)"
    unfolding strip_def
    by (metis prefix_def rev_append rev_rev_ident takeWhile_dropWhile_id)
  ultimately show ?thesis
    by (meson prefix_imp_sublist suffix_imp_sublist sublist_order.order_trans)
qed

lemma strip_set: "set (strip s) \<subseteq> set s"
  using strip_sublist [of s] by (rule set_mono_sublist)

lemma strip_ends:
  assumes "strip s \<noteq> []"
  shows "\<not> isspace (hd (strip s)) \<and> \<not> isspace (last (strip s))"
proof -
  let ?t = "dropWhile isspace s"
  let ?u = "dropWhile isspace (rev ?t)"
  have u: "?u \<noteq> []" using assms by (simp add: strip_def)
  have t: "?t \<noteq> []"
  proof
    assume e: "?t = []"
    have "dropWhile isspace (rev []) = ([]::string)" by simp
    then show False using u unfolding e by simp
  qed
  have "last (strip s) = hd ?u" unfolding strip_def by (rule last_rev)
  moreover have "\<not> isspace (hd ?u)" using u by (rule hd_dropWhile)
  moreover have "hd (strip s) = last ?u" unfolding strip_def by (rule hd_rev)
  moreover have "last ?u = last (rev ?t)"
    using u by (metis last_appendR takeWhile_dropWhile_id)
  moreover have "last (rev ?t) = hd ?t" by (rule last_rev)
  moreover have "\<not> isspace (hd ?t)" using t by (rule hd_dropWhile)
  ultimately show ?thesis by simp
qed


theorem deduplicate_idempotent_witness:
  "fst (deduplicate initial_state
     [sample_article ''https://a/1'' ''Banjir Jakarta!!'' (Text ''banjir jakarta'') ''x''])
   = [sample_article ''https://a/1'' ''Banjir Jakarta!!'' (Text ''banjir jakarta'') ''x'']"
proof -
  have e: "fst (deduplicate initial_state
      [sample_article ''https://a/1'' ''Banjir Jakarta!!'' (Text ''banjir jakarta'') ''x'',
       sample_article ''https://a/1'' ''banjir jakarta'' (Text ''banjir jakarta'') ''y''])
    = [sample_article ''https://a/1'' ''Banjir Jakarta!!'' (Text ''banjir jakarta'') ''x'']"
    by (simp add: deduplicate_def drop_duplicates_def dedup_key_def sample_article_def Let_def)
  show ?thesis
    using deduplicate_idempotent [of initial_state initial_state
      "[sample_article ''https://a/1'' ''Banjir Jakarta!!'' (Text ''banjir jakarta'') ''x'',
        sample_article ''https://a/1'' ''banjir jakarta'' (Text ''banjir jakarta'') ''y'']"]
    unfolding e .
qed

theorem is_in_indonesia_iff_location_witness:
  "is_in_indonesia (load_lokasi_keywords None) (Some ''Banjir bandang di Jakarta'') None"
proof -
  have e: "extract_location (load_lokasi_keywords None) (Some ''Banjir bandang di Jakarta'') None
    = ''Jakarta''"
    by code_simp
  show ?thesis
    using is_in_indonesia_iff_location
      [of "load_lokasi_keywords None" "Some ''Banjir bandang di Jakarta''" None] e
    by simp
qed

theorem get_disaster_type_first_match_witness:
  "get_disaster_type ''Gempa dan banjir bandang di Jakarta'' [] = ''Banjir''"
proof -
  have c: "contains ''banjir'' (lower (''Gempa dan banjir bandang di Jakarta'' @ '' '' @ []))"
    by code_simp
  have h: "\<exists>kw\<in>set (snd (disaster_categories ! 0)).
      sublist kw (lower (''Gempa dan banjir bandang di Jakarta'' @ '' '' @ []))"
    using c unfolding contains_sublist by (simp add: disaster_categories_def)
  have "0 < length disaster_categories" by (simp add: disaster_categories_def)
  then have "get_disaster_type ''Gempa dan banjir bandang di Jakarta'' [] =
      fst (disaster_categories ! 0)"
    using get_disaster_type_first_match [of "''Gempa dan banjir bandang di Jakarta''" "[]"] h
    by blast
  then show ?thesis by (simp add: disaster_categories_def)
qed

theorem is_disaster_event_iff_witness:
  "is_disaster_event (Some ''Wabah diare di Jawa'') (Some ''banjir'') \<and>
   (\<exists>ctx\<in>set EPIDEMIC_CONTEXT.
      sublist ctx (lower (''Wabah diare di Jawa'' @ '' '' @ ''banjir'')))"
proof -
  have e: "is_disaster_event (Some ''Wabah diare di Jawa'') (Some ''banjir'')"
    by code_simp
  have c: "contains ''wabah'' (lower (''Wabah diare di Jawa'' @ '' '' @ ''banjir''))"
    by code_simp
  have t: "\<exists>term\<in>set [''wabah'', ''epidemi'', ''pandemi''].
      sublist term (lower (''Wabah diare di Jawa'' @ '' '' @ ''banjir''))"
    using c unfolding contains_sublist by simp
  show ?thesis
    using is_disaster_event_iff [of "Some ''Wabah diare di Jawa''" "Some ''banjir''"] e t
    by (auto simp: str_or_empty_def)
qed

lemma normalize_title_chars:
  assumes "c \<in> set (normalize_title (Some s))"
  shows "lower_char c = c \<and>
     (isalpha c \<or> in_range 48 57 c \<or> c = CHR '' '' \<or> code_point c = 215 \<or> code_point c = 247)"
proof -
  let ?m = "map (\<lambda>c. if kept_char c then c else space_char) (lower s)"
  have "c \<in> set (collapse_spaces ?m)"
    using assms strip_set by (auto simp: normalize_title_def Let_def)
  then consider "c \<in> set ?m" "\<not> isspace c" | "c = space_char"
    using collapse_spaces_set by blast
  then show ?thesis
  proof cases
    case 1
    from 1(1) have "c \<in> (\<lambda>x. if kept_char (lower_char x) then lower_char x else space_char) ` set s"
      by (simp only: lower_def set_map image_image)
    then obtain x where "c = (if kept_char (lower_char x) then lower_char x else space_char)"
      by (rule imageE)
    then show ?thesis using normalized_char [of x] 1(2) by auto
  next
    case 2
    then show ?thesis by (simp add: lower_char_space) (simp add: space_char_def)
  qed
qed

text \<open>
  What does hold of the result, for a text of the block: it is lower-cased, has no two
  consecutive spaces, neither starts nor ends with whitespace, and every character of it is
  a letter, an ASCII digit, the space, or one of the two signs U+00D7 and U+00F7.
\<close>

lemma normalize_title_shape:
  "normalize_title None = [] \<and> normalize_title (Some []) = [] \<and>
   lower (normalize_title (Some s)) = normalize_title (Some s) \<and>
   (\<forall>c\<in>set (normalize_title (Some s)).
      isalpha c \<or> in_range 48 57 c \<or> c = CHR '' '' \<or> code_point c = 215 \<or>
      code_point c = 247) \<and>
   \<not> sublist [CHR '' '', CHR '' ''] (normalize_title (Some s)) \<and>
   (normalize_title (Some s) \<noteq> [] \<longrightarrow>
      \<not> isspace (hd (normalize_title (Some s))) \<and>
      \<not> isspace (last (normalize_title (Some s))))"
proof (intro conjI ballI impI)
  show "normalize_title None = []" by (simp add: normalize_title_def)
  show "normalize_title (Some []) = []"
    by (simp add: normalize_title_def lower_def strip_def)
  show "lower (normalize_title (Some s)) = normalize_title (Some s)"
    unfolding lower_def using normalize_title_chars by (intro map_idI) blast
  show "isalpha c \<or> in_range 48 57 c \<or> c = CHR '' '' \<or> code_point c = 215 \<or>
      code_point c = 247" if "c \<in> set (normalize_title (Some s))" for c
    using normalize_title_chars [OF that] by blast
  have sp: "isspace (CHR '' '')"
    by (simp add: isspace_def in_range_def code_point_def)
  show "\<not> sublist [CHR '' '', CHR '' ''] (normalize_title (Some s))"
  proof
    assume "sublist [CHR '' '', CHR '' ''] (normalize_title (Some s))"
    then have "sublist [CHR '' '', CHR '' '']
        (collapse_spaces (map (\<lambda>c. if kept_char c then c else space_char) (lower s)))"
      using strip_sublist sublist_order.order_trans
      by (fastforce simp: normalize_title_def Let_def)
    then show False using collapse_spaces_no_run [OF sp sp] by blast
  qed
  show "\<not> isspace (hd (normalize_title (Some s)))" if "normalize_title (Some s) \<noteq> []"
    using that strip_ends by (simp add: normalize_title_def Let_def)
  show "\<not> isspace (last (normalize_title (Some s)))" if "normalize_title (Some s) \<noteq> []"
    using that strip_ends by (simp add: normalize_title_def Let_def)
qed

text \<open>
  Claim C7. The result of \<open>normalize_title\<close> should hold letters, digits and spaces only
  (the comment of the source: keep alphanumerics and spaces). It does not: the range
  U+00C0..U+024F of the pattern holds the multiplication sign U+00D7, which is kept although
  it is not a letter, a digit or a space.
\<close>

theorem normalize_title_keeps_sign:
  "normalize_title (Some [CHR ''3'', CHR 0xD7, CHR ''4'']) = [CHR ''3'', CHR 0xD7, CHR ''4''] \<and>
   \<not> isalpha (CHR 0xD7) \<and> \<not> isnumeric (CHR 0xD7) \<and> \<not> isspace (CHR 0xD7)"
  by code_simp

subsection \<open>Timestamp validation and merge\<close>

lemma process_datetime_rows:
  "fst (process_datetime lib st df) =
     map (\<lambda>r. with_instants lib r (to_datetime lib (map tanggal_publikasi df) (tanggal_publikasi r)))
       (filter (\<lambda>r. to_datetime lib (map tanggal_publikasi df) (tanggal_publikasi r) \<noteq> None) df)"
  by (simp add: process_datetime_def Let_def filter_map comp_def with_instants_def)

lemma filter_unparsed:
  "filter (\<lambda>r. datetime_utc r = None) (map (\<lambda>r. r\<lparr>datetime_utc := p r\<rparr>) xs) =
   map (\<lambda>r. r\<lparr>datetime_utc := None\<rparr>) (filter (\<lambda>r. p r = None) xs)"
  by (induction xs) auto

lemma process_datetime_state:
  "df \<noteq> [] \<Longrightarrow>
   snd (process_datetime lib st df) =
     (let invalid_dates = map (\<lambda>r. r\<lparr>datetime_utc := None\<rparr>)
            (filter (\<lambda>r. to_datetime lib (map tanggal_publikasi df) (tanggal_publikasi r) = None) df);
          st1 = st\<lparr>stats := (stats st)\<lparr>articles_with_invalid_dates := length invalid_dates\<rparr>\<rparr>
      in if invalid_dates = [] then st1
         else st1\<lparr>invalid_dates_file := Some
           ((case invalid_dates_file st of Some rows \<Rightarrow> rows | None \<Rightarrow> []) @
            map (\<lambda>r. \<lparr>entry = r, skipped_at = utcnow lib, skip_reason = ''invalid_dates''\<rparr>)
              invalid_dates)\<rparr>)"
proof -
  show ?thesis if "df \<noteq> []"
    using that unfolding process_datetime_def Let_def filter_unparsed save_skipped_articles_def
    by (simp split: option.splits)
qed

text \<open>
  Claim C8. After \<open>process_datetime\<close> on a frame \<open>df\<close>: every row whose publication
  date does not parse is in the log of invalid dates, with the reason \<open>invalid_dates\<close> and
  the time of processing; no row that is returned has such a date; every row whose date
  parses is returned, with its instants; the statistic counts the rows that do not parse;
  every row is either returned or counted; and what the log held before is still there.
\<close>

theorem process_datetime_routes_invalid:
  assumes "process_datetime lib st df = (out, st')"
  shows "(\<forall>r\<in>set df. to_datetime lib (map tanggal_publikasi df) (tanggal_publikasi r) = None \<longrightarrow>
            (\<exists>rows. invalid_dates_file st' = Some rows \<and>
               \<lparr>entry = r\<lparr>datetime_utc := None\<rparr>, skipped_at = utcnow lib,
                skip_reason = ''invalid_dates''\<rparr> \<in> set rows)) \<and>
         (\<forall>r\<in>set out. to_datetime lib (map tanggal_publikasi df) (tanggal_publikasi r) \<noteq> None) \<and>
         (\<forall>r\<in>set df. to_datetime lib (map tanggal_publikasi df) (tanggal_publikasi r) \<noteq> None \<longrightarrow>
            with_instants lib r (to_datetime lib (map tanggal_publikasi df) (tanggal_publikasi r))
              \<in> set out) \<and>
         (df \<noteq> [] \<longrightarrow> articles_with_invalid_dates (stats st') =
            length (filter (\<lambda>r. to_datetime lib (map tanggal_publikasi df) (tanggal_publikasi r) = None) df)) \<and>
         length out +
            length (filter (\<lambda>r. to_datetime lib (map tanggal_publikasi df) (tanggal_publikasi r) = None) df)
            = length df \<and>
         (\<forall>rows. invalid_dates_file st = Some rows \<longrightarrow>
            (\<exists>more. invalid_dates_file st' = Some (rows @ more)))"
proof -
  let ?p = "\<lambda>r. to_datetime lib (map tanggal_publikasi df) (tanggal_publikasi r)"
  let ?bad = "filter (\<lambda>r. ?p r = None) df"
  have out: "out = map (\<lambda>r. with_instants lib r (?p r)) (filter (\<lambda>r. ?p r \<noteq> None) df)"
    using process_datetime_rows [of lib st df] assms by simp
  have st': "df \<noteq> [] \<Longrightarrow> st' =
     (let invalid_dates = map (\<lambda>r. r\<lparr>datetime_utc := None\<rparr>) ?bad;
          st1 = st\<lparr>stats := (stats st)\<lparr>articles_with_invalid_dates := length invalid_dates\<rparr>\<rparr>
      in if invalid_dates = [] then st1
         else st1\<lparr>invalid_dates_file := Some
           ((case invalid_dates_file st of Some rows \<Rightarrow> rows | None \<Rightarrow> []) @
            map (\<lambda>r. \<lparr>entry = r, skipped_at = utcnow lib, skip_reason = ''invalid_dates''\<rparr>)
              invalid_dates)\<rparr>)"
    using process_datetime_state [of df lib st] assms by simp
  have empty: "df = [] \<Longrightarrow> st' = st"
    using assms by (simp add: process_datetime_def)
  have a: "\<exists>rows. invalid_dates_file st' = Some rows \<and>
      \<lparr>entry = r\<lparr>datetime_utc := None\<rparr>, skipped_at = utcnow lib,
       skip_reason = ''invalid_dates''\<rparr> \<in> set rows"
    if r: "r \<in> set df" and n: "?p r = None" for r
  proof -
    have ne: "df \<noteq> []" using r by auto
    have m: "r \<in> set ?bad" using r n by simp
    then have ne2: "?bad \<noteq> []" by (metis empty_iff empty_set)
    let ?old = "case invalid_dates_file st of Some rows \<Rightarrow> rows | None \<Rightarrow> []"
    let ?new = "map (\<lambda>r. \<lparr>entry = r, skipped_at = utcnow lib, skip_reason = ''invalid_dates''\<rparr>)
        (map (\<lambda>r. r\<lparr>datetime_utc := None\<rparr>) ?bad)"
    have "invalid_dates_file st' = Some (?old @ ?new)"
      using st' [OF ne] ne2 by (simp add: Let_def)
    moreover have "\<lparr>entry = r\<lparr>datetime_utc := None\<rparr>, skipped_at = utcnow lib,
        skip_reason = ''invalid_dates''\<rparr> \<in> set ?new"
      using m by (simp only: set_map image_image) (rule imageI)
    ultimately show ?thesis by simp
  qed
  have b: "?p r \<noteq> None" if "r \<in> set out" for r
    using that unfolding out by (auto simp: with_instants_def)
  have c: "with_instants lib r (?p r) \<in> set out" if "r \<in> set df" "?p r \<noteq> None" for r
    using that unfolding out by auto
  have d: "articles_with_invalid_dates (stats st') = length ?bad" if "df \<noteq> []"
    using st' [OF that] by (simp add: Let_def)
  have e: "length out + length ?bad = length df"
    unfolding out using sum_length_filter_compl [of "\<lambda>r. ?p r \<noteq> None" df] by simp
  have f: "\<exists>more. invalid_dates_file st' = Some (rows @ more)"
    if "invalid_dates_file st = Some rows" for rows
  proof (cases "df = []")
    case True
    then show ?thesis using empty that by simp
  next
    case False
    show ?thesis using st' [OF False] that by (auto simp: Let_def)
  qed
  show ?thesis using a b c d e f by blast
qed

theorem process_datetime_routes_invalid_witness:
  "articles_with_invalid_dates (stats (snd (process_datetime sample_library initial_state
      [sample_article ''https://a/1'' ''Banjir Jakarta'' (Text ''banjir jakarta'')
         ''2024-01-01T00:00:00+00:00'',
       sample_article ''https://a/2'' ''Gempa Bali'' (Text ''gempa bali'') ''kemarin'']))) = 1 \<and>
   length (fst (process_datetime sample_library initial_state
      [sample_article ''https://a/1'' ''Banjir Jakarta'' (Text ''banjir jakarta'')
         ''2024-01-01T00:00:00+00:00'',
       sample_article ''https://a/2'' ''Gempa Bali'' (Text ''gempa bali'') ''kemarin''])) = 1"
proof -
  let ?df = "[sample_article ''https://a/1'' ''Banjir Jakarta'' (Text ''banjir jakarta'')
         ''2024-01-01T00:00:00+00:00'',
       sample_article ''https://a/2'' ''Gempa Bali'' (Text ''gempa bali'') ''kemarin'']"
  have h: "process_datetime sample_library initial_state ?df =
      (fst (process_datetime sample_library initial_state ?df),
       snd (process_datetime sample_library initial_state ?df))"
    by simp
  have n: "length (filter (\<lambda>r. to_datetime sample_library (map tanggal_publikasi ?df)
      (tanggal_publikasi r) = None) ?df) = 1"
    by (simp add: sample_library_def sample_article_def)
  show ?thesis
    using process_datetime_routes_invalid [OF h] n by simp
qed

lemma process_datetime_df_rows:
  assumes "columns df \<noteq> []" and "process_datetime_df lib st df = (Inr df1, st1)"
  shows "records df1 = fst (process_datetime lib st (records df)) \<and> columns df1 \<noteq> []"
proof (cases "records df = []")
  case True
  then show ?thesis
    using assms by (auto simp: process_datetime_df_def is_empty_def process_datetime_def)
next
  case False
  then show ?thesis
    using assms
    by (auto simp: process_datetime_df_def is_empty_def assign_columns_def
        split: if_splits prod.splits)
qed

lemma deduplicate_df_rows:
  assumes "columns df \<noteq> []" and "deduplicate_df st df = (Inr df2, st2)"
  shows "records df2 = drop_duplicates dedup_key (records df) \<and> columns df2 = columns df"
proof (cases "records df = []")
  case True
  then show ?thesis
    using assms by (auto simp: deduplicate_df_def is_empty_def drop_duplicates_def)
next
  case False
  have d: "fst (deduplicate s rs) = drop_duplicates dedup_key rs" for s rs
    by (simp add: deduplicate_def Let_def drop_duplicates_def)
  show ?thesis
    using assms False d [of st "records df"]
    by (auto simp: deduplicate_df_def is_empty_def split: if_splits prod.splits)
qed

lemma no_columns_raises:
  assumes "columns df = []"
  shows "process_datetime_df lib st df = (Inr df, st)" and "deduplicate_df st df = (Inr df, st)"
  using assms by (simp_all add: process_datetime_df_def deduplicate_df_def is_empty_def)

lemma concat_with_existing_rows:
  "concat_with_existing st df_new = Inr df_all \<Longrightarrow>
   records df_all = loaded_rows st @ records df_new"
  by (auto simp: concat_with_existing_def loaded_rows_def concat_frames_def
      split: option.splits if_splits)

lemma merge_rows:
  assumes "merge_with_existing lib st df_new = (Inr out, st')"
  shows "records out = sort_values_desc lib (drop_duplicates dedup_key
     (fst (process_datetime lib st (loaded_rows st @ records df_new))))"
proof -
  obtain df_all where a: "concat_with_existing st df_new = Inr df_all"
    using assms unfolding merge_with_existing_def by (auto split: sum.splits)
  have all: "records df_all = loaded_rows st @ records df_new"
    using a by (rule concat_with_existing_rows)
  obtain df1 st1 where p: "process_datetime_df lib st df_all = (Inr df1, st1)"
    using assms a unfolding merge_with_existing_def by (auto split: prod.splits sum.splits)
  obtain df2 st2 where d: "deduplicate_df st1 df1 = (Inr df2, st2)"
    using assms a p unfolding merge_with_existing_def by (auto split: prod.splits sum.splits)
  have w: "''datetime_wib'' \<in> set (columns df2)"
    and o: "records out = sort_values_desc lib (records df2)"
    using assms a p d unfolding merge_with_existing_def by (auto split: if_splits)
  have c: "columns df_all \<noteq> []"
  proof
    assume e: "columns df_all = []"
    have "df1 = df_all" using no_columns_raises(1) [OF e, of lib st] p by simp
    moreover have "df2 = df1" using no_columns_raises(2) [of df1 st1] e calculation d by simp
    ultimately show False using w e by simp
  qed
  have 1: "records df1 = fst (process_datetime lib st (records df_all))" and c1: "columns df1 \<noteq> []"
    using process_datetime_df_rows [OF c p] by blast+
  have "records df2 = drop_duplicates dedup_key (records df1)"
    using deduplicate_df_rows [OF c1 d] by blast
  then show ?thesis using o 1 all by simp
qed

lemma sort_values_desc_set:
  assumes "\<And>xs. distinct (argsort lib xs) \<and> set (argsort lib xs) = {..<length xs}"
  shows "set (sort_values_desc lib df) = set df"
proof -
  let ?v = "rev (filter (\<lambda>r. datetime_wib r \<noteq> None) df)"
  have "set (map (\<lambda>i. ?v ! i) (argsort lib (map instant ?v))) = (\<lambda>i. ?v ! i) ` {..<length ?v}"
    using assms [of "map instant ?v"] by simp
  also have "\<dots> = set ?v" by (auto simp: set_conv_nth)
  finally show ?thesis by (auto simp: sort_values_desc_def Let_def)
qed

lemma sort_values_desc_distinct:
  assumes "\<And>xs. distinct (argsort lib xs) \<and> set (argsort lib xs) = {..<length xs}"
    and "distinct df"
  shows "distinct (sort_values_desc lib df)"
proof -
  let ?v = "rev (filter (\<lambda>r. datetime_wib r \<noteq> None) df)"
  let ?s = "map (\<lambda>i. ?v ! i) (argsort lib (map instant ?v))"
  have s: "set ?s = set ?v"
  proof -
    have "set ?s = (\<lambda>i. ?v ! i) ` {..<length ?v}"
      using assms(1) [of "map instant ?v"] by simp
    then show ?thesis by (auto simp: set_conv_nth)
  qed
  have "distinct ?v" using assms(2) by simp
  then have "inj_on (\<lambda>i. ?v ! i) (set (argsort lib (map instant ?v)))"
    using assms(1) [of "map instant ?v"] by (intro inj_on_nth) auto
  then have "distinct ?s" using assms(1) [of "map instant ?v"] by (simp add: distinct_map)
  moreover have "set ?s \<inter> set (filter (\<lambda>r. datetime_wib r = None) df) = {}"
    unfolding s by auto
  ultimately show ?thesis
    using assms(2) by (simp add: sort_values_desc_def Let_def)
qed

lemma sort_values_desc_sorted:
  assumes "\<And>xs. set (argsort lib xs) = {..<length xs} \<and>
      sorted (map (\<lambda>i. xs ! i) (argsort lib xs))"
    and "\<forall>r\<in>set df. datetime_wib r \<noteq> None"
  shows "sorted_wrt (\<lambda>a b. instant b \<le> instant a) (sort_values_desc lib df)"
proof -
  let ?v = "rev (filter (\<lambda>r. datetime_wib r \<noteq> None) df)"
  let ?p = "argsort lib (map instant ?v)"
  have n: "filter (\<lambda>r. datetime_wib r = None) df = []"
    using assms(2) by (simp add: filter_empty_conv)
  have "map instant (map (\<lambda>i. ?v ! i) ?p) = map (\<lambda>i. map instant ?v ! i) ?p"
    using assms(1) [of "map instant ?v"] by (auto simp: nth_map)
  then have e: "map instant (map (\<lambda>i. ?v ! i) ?p) = map (\<lambda>i. map instant ?v ! i) ?p" .
  have s: "sorted (map (\<lambda>i. map instant ?v ! i) ?p)"
    using assms(1) [of "map instant ?v"] by blast
  have "sorted (map instant (map (\<lambda>i. ?v ! i) ?p))" unfolding e by (rule s)
  then have "sorted_wrt (\<lambda>a b. instant a \<le> instant b) (map (\<lambda>i. ?v ! i) ?p)"
    by (simp only: sorted_map)
  then have "sorted_wrt (\<lambda>a b. instant b \<le> instant a) (rev (map (\<lambda>i. ?v ! i) ?p))"
    by (simp only: sorted_wrt_rev)
  then show ?thesis unfolding sort_values_desc_def Let_def n by simp
qed

lemma find_distinct_key:
  "distinct (map key ys) \<Longrightarrow> r \<in> set ys \<Longrightarrow> find (\<lambda>x. key x = key r) ys = Some r"
  by (induction ys) (auto simp: image_iff)

text \<open>
  What does hold of a merge that returns a frame, when \<open>argsort\<close> gives the positions in
  ascending order of value. The rows that are merged are the historical rows, with the key
  \<open>judul_bersih\<close> computed from the title when the historical table has no such column,
  followed by the new rows. Of these, the rows whose date parses are kept (\<open>valid\<close>, with
  their instants). The result has no two rows of the same pair of cells
  (link, judul_bersih), is sorted by instant, latest first, has the keys of the valid rows,
  and each of its rows is the first valid row of its key in the order of concatenation.
\<close>

lemma merge_with_existing_distinct_keys:
  assumes "merge_with_existing lib st df_new = (Inr out, st')"
    and "\<And>xs. distinct (argsort lib xs) \<and> set (argsort lib xs) = {..<length xs} \<and>
      sorted (map (\<lambda>i. xs ! i) (argsort lib xs))"
    and "df_all = loaded_rows st @ records df_new"
    and "valid = map (\<lambda>r. with_instants lib r
             (to_datetime lib (map tanggal_publikasi df_all) (tanggal_publikasi r)))
           (filter (\<lambda>r. to_datetime lib (map tanggal_publikasi df_all) (tanggal_publikasi r) \<noteq> None)
              df_all)"
  shows "distinct (map dedup_key (records out)) \<and>
         sorted_wrt (\<lambda>a b. instant b \<le> instant a) (records out) \<and>
         set (records out) \<subseteq> set valid \<and>
         dedup_key ` set (records out) = dedup_key ` set valid \<and>
         (\<forall>r\<in>set (records out). find (\<lambda>x. dedup_key x = dedup_key r) valid = Some r)"
proof -
  let ?dd = "drop_duplicates dedup_key valid"
  have ok1: "\<And>xs. distinct (argsort lib xs) \<and> set (argsort lib xs) = {..<length xs}"
    using assms(2) by blast
  have ok2: "\<And>xs. set (argsort lib xs) = {..<length xs} \<and>
      sorted (map (\<lambda>i. xs ! i) (argsort lib xs))"
    using assms(2) by blast
  have v: "valid = fst (process_datetime lib st df_all)"
    unfolding assms(4) by (rule process_datetime_rows [symmetric])
  have out: "records out = sort_values_desc lib ?dd"
    using merge_rows [OF assms(1)] unfolding v assms(3) by simp
  have so: "set (records out) = set ?dd"
    unfolding out using ok1 by (rule sort_values_desc_set)
  have keys: "distinct (map dedup_key ?dd)"
    using drop_duplicates_from_keys [of dedup_key "[]" valid] by (simp add: drop_duplicates_def)
  then have "distinct ?dd" by (rule distinct_map [THEN iffD1, THEN conjunct1])
  then have "distinct (records out)"
    unfolding out using ok1 by (intro sort_values_desc_distinct)
  moreover have "inj_on dedup_key (set (records out))"
    using keys unfolding so by (simp add: distinct_map)
  ultimately have 1: "distinct (map dedup_key (records out))" by (simp add: distinct_map)
  have sub: "set ?dd \<subseteq> set valid"
    unfolding drop_duplicates_def by (rule drop_duplicates_from_set)
  have 3: "set (records out) \<subseteq> set valid" unfolding so by (rule sub)
  have "\<forall>r\<in>set ?dd. datetime_wib r \<noteq> None"
    using sub unfolding assms(4) by (auto simp: with_instants_def)
  then have 2: "sorted_wrt (\<lambda>a b. instant b \<le> instant a) (records out)"
    unfolding out using ok2 by (intro sort_values_desc_sorted)
  have 4: "dedup_key ` set (records out) = dedup_key ` set valid"
    unfolding so drop_duplicates_def
    using drop_duplicates_from_key_set [of dedup_key "[]" valid] by simp
  have 5: "find (\<lambda>x. dedup_key x = dedup_key r) valid = Some r" if "r \<in> set (records out)" for r
  proof -
    have "r \<in> set ?dd" using that unfolding so .
    then have "find (\<lambda>x. dedup_key x = dedup_key r) ?dd = Some r"
      using keys by (intro find_distinct_key)
    then show ?thesis
      unfolding drop_duplicates_def
      using drop_duplicates_from_find [of "dedup_key r" "[]" dedup_key valid] by simp
  qed
  show ?thesis using 1 2 3 4 5 by blast
qed

text \<open>
  Claim C1. The merge should leave no two records of the same link and normalized title.
  It leaves two here: the historical file has the column \<open>judul_bersih\<close>, and in it the cell of a
  row whose normalized title is empty is missing, as \<open>read_csv\<close> gives it; the key is
  computed only when the whole column is absent, so the new row of the same link and the
  same title, whose key is the empty string, is kept beside the historical row. On a
  historical file without the column the same two rows are merged into one.
\<close>

theorem merge_with_existing_keeps_duplicate:
  "map_option (map link) (merged_rows (merge_with_existing sample_library
      (initial_state\<lparr>csv_output := Some \<lparr>columns = pipeline_columns, records =
         [sample_article ''https://a/1'' ''!!!'' NaN ''2024-01-01T00:00:00+00:00'']\<rparr>\<rparr>)
      \<lparr>columns = pipeline_columns, records =
         [sample_article ''https://a/1'' ''!!!'' (Text []) ''2024-01-01T00:00:00+00:00'']\<rparr>))
     = Some [Text ''https://a/1'', Text ''https://a/1''] \<and>
   map_option (map judul) (merged_rows (merge_with_existing sample_library
      (initial_state\<lparr>csv_output := Some \<lparr>columns = pipeline_columns, records =
         [sample_article ''https://a/1'' ''!!!'' NaN ''2024-01-01T00:00:00+00:00'']\<rparr>\<rparr>)
      \<lparr>columns = pipeline_columns, records =
         [sample_article ''https://a/1'' ''!!!'' (Text []) ''2024-01-01T00:00:00+00:00'']\<rparr>))
     = Some [Text ''!!!'', Text ''!!!''] \<and>
   normalize_title (Some ''!!!'') = [] \<and>
   map_option (map link) (merged_rows (merge_with_existing sample_library
      (initial_state\<lparr>csv_output := Some \<lparr>columns = remove1 ''judul_bersih'' pipeline_columns,
         records =
         [sample_article ''https://a/1'' ''!!!'' NaN ''2024-01-01T00:00:00+00:00'']\<rparr>\<rparr>)
      \<lparr>columns = pipeline_columns, records =
         [sample_article ''https://a/1'' ''!!!'' (Text []) ''2024-01-01T00:00:00+00:00'']\<rparr>))
     = Some [Text ''https://a/1'']"
  by code_simp

text \<open>An empty frame without columns and no historical file: the sort raises.\<close>

lemma merge_with_existing_empty:
  "fst (merge_with_existing sample_library initial_state \<lparr>columns = [], records = []\<rparr>)
     = Inl (KeyError [''datetime_wib''])"
  by code_simp

subsection \<open>Location\<close>

lemma title_empty: "title e = [] \<longleftrightarrow> e = []"
  by (cases e) (simp_all add: title_def title_char_def)

lemma scan_locations_find:
  "scan_locations locs body =
     (case find (\<lambda>e. e \<noteq> ''indonesia'' \<and> search (whole_word e) body) locs of
        None \<Rightarrow> [] | Some e \<Rightarrow> title e)"
  by (induction locs) simp_all

lemma find_sorted_least:
  "sorted (map f ys) \<Longrightarrow> find P ys = Some e \<Longrightarrow> e' \<in> set ys \<Longrightarrow> P e' \<Longrightarrow> f e \<le> f e'"
  by (induction ys) (auto split: if_splits)

lemma find_filter_same:
  "find P ys = Some e \<Longrightarrow> Q e \<Longrightarrow> find P (filter Q ys) = Some e"
  by (induction ys) (auto split: if_splits)

lemma find_Some_set: "find P ys = Some e \<Longrightarrow> e \<in> set ys \<and> P e"
  by (induction ys) (auto split: if_splits)

lemma find_sorted_locations:
  assumes "find P (sorted_locations gaz) = Some e"
  shows "e \<in> set gaz \<and> P e \<and> (\<forall>e'\<in>set gaz. P e' \<longrightarrow> length e' \<le> length e) \<and>
         find P (filter (\<lambda>x. length x = length e) gaz) = Some e"
proof -
  let ?f = "\<lambda>lokasi::string. - int (length lokasi)"
  have s: "sorted (map ?f (sorted_locations gaz))"
    unfolding sorted_locations_def by (rule sorted_sort_key)
  have m: "e \<in> set gaz \<and> P e"
    using find_Some_set [OF assms] by (simp add: sorted_locations_def)
  have l: "length e' \<le> length e" if "e' \<in> set gaz" "P e'" for e'
  proof -
    have "e' \<in> set (sorted_locations gaz)" using that(1) by (simp add: sorted_locations_def)
    then have "?f e \<le> ?f e'" using find_sorted_least [OF s assms] that(2) by blast
    then show ?thesis by simp
  qed
  have "find P (filter (\<lambda>x. ?f x = ?f e) (sorted_locations gaz)) = Some e"
    using assms by (rule find_filter_same) simp
  moreover have "filter (\<lambda>x. ?f x = ?f e) (sorted_locations gaz) = filter (\<lambda>x. ?f x = ?f e) gaz"
    unfolding sorted_locations_def by (rule sort_key_stable)
  ultimately have "find P (filter (\<lambda>x. length x = length e) gaz) = Some e" by simp
  then show ?thesis using m l by blast
qed

text \<open>
  Claim C4, as the code has it. When the lower-cased text matches the phrase
  \<open>di indonesia\<close> the result is \<open>Indonesia\<close>. Otherwise the entry \<open>indonesia\<close> of
  the gazetteer is passed over: when no other entry matches as a whole word the result is
  empty, and when one does the result is the title-cased form of a matching entry that no
  other matching entry exceeds in length, and that is the first of the gazetteer among the
  matching entries of its length.
\<close>

theorem extract_location_longest:
  assumes "body = lower (str_or_empty jud @ '' '' @ str_or_empty ring)"
  shows "(search di_indonesia body \<longrightarrow> extract_location gaz jud ring = ''Indonesia'') \<and>
         (\<not> search di_indonesia body \<and>
          (\<forall>e\<in>set gaz. e = ''indonesia'' \<or> \<not> search (whole_word e) body) \<longrightarrow>
            extract_location gaz jud ring = []) \<and>
         (\<not> search di_indonesia body \<and>
          (\<exists>e\<in>set gaz. e \<noteq> ''indonesia'' \<and> search (whole_word e) body) \<longrightarrow>
            (\<exists>e\<in>set gaz. e \<noteq> ''indonesia'' \<and> search (whole_word e) body \<and>
               (\<forall>e'\<in>set gaz. e' \<noteq> ''indonesia'' \<and> search (whole_word e') body \<longrightarrow>
                  length e' \<le> length e) \<and>
               find (\<lambda>x. x \<noteq> ''indonesia'' \<and> search (whole_word x) body)
                 (filter (\<lambda>x. length x = length e) gaz) = Some e \<and>
               extract_location gaz jud ring = title e))"
proof -
  let ?P = "\<lambda>e. e \<noteq> ''indonesia'' \<and> search (whole_word e) body"
  have x: "extract_location gaz jud ring =
      (if search di_indonesia body then ''Indonesia''
       else case find ?P (sorted_locations gaz) of None \<Rightarrow> [] | Some e \<Rightarrow> title e)"
    unfolding extract_location_def Let_def assms scan_locations_find by simp
  have a: "extract_location gaz jud ring = ''Indonesia''" if "search di_indonesia body"
    using that x by simp
  have b: "extract_location gaz jud ring = []"
    if "\<not> search di_indonesia body" "\<forall>e\<in>set gaz. e = ''indonesia'' \<or> \<not> search (whole_word e) body"
  proof -
    have "find ?P (sorted_locations gaz) = None"
      using that(2) by (auto simp: find_None_iff sorted_locations_def)
    then show ?thesis using that(1) x by simp
  qed
  have c: "\<exists>e\<in>set gaz. ?P e \<and> (\<forall>e'\<in>set gaz. ?P e' \<longrightarrow> length e' \<le> length e) \<and>
      find ?P (filter (\<lambda>x. length x = length e) gaz) = Some e \<and>
      extract_location gaz jud ring = title e"
    if "\<not> search di_indonesia body" "\<exists>e\<in>set gaz. ?P e"
  proof -
    have "find ?P (sorted_locations gaz) \<noteq> None"
      using that(2) by (auto simp: find_None_iff sorted_locations_def)
    then obtain e where e: "find ?P (sorted_locations gaz) = Some e" by blast
    have "extract_location gaz jud ring = title e" using that(1) x e by simp
    then show ?thesis using find_sorted_locations [OF e] by blast
  qed
  show ?thesis using a b c by blast
qed

text \<open>
  Claim C3, as the code has it. \<open>is_in_indonesia\<close> is true exactly when the lower-cased
  text matches the phrase \<open>di indonesia\<close>, or some non-empty gazetteer entry other than
  \<open>indonesia\<close> matches it as a whole word.
\<close>

theorem is_in_indonesia_iff:
  assumes "body = lower (str_or_empty jud @ '' '' @ str_or_empty ring)"
  shows "is_in_indonesia gaz jud ring \<longleftrightarrow>
     search di_indonesia body \<or>
     (\<exists>e\<in>set gaz. e \<noteq> ''indonesia'' \<and> e \<noteq> [] \<and> search (whole_word e) body)"
proof -
  let ?P = "\<lambda>e. e \<noteq> ''indonesia'' \<and> search (whole_word e) body"
  have x: "extract_location gaz jud ring =
      (if search di_indonesia body then ''Indonesia''
       else case find ?P (sorted_locations gaz) of None \<Rightarrow> [] | Some e \<Rightarrow> title e)"
    unfolding extract_location_def Let_def assms scan_locations_find by simp
  show ?thesis
  proof (cases "search di_indonesia body")
    case True
    then show ?thesis using x by (simp add: is_in_indonesia_def)
  next
    case False
    show ?thesis
    proof (cases "find ?P (sorted_locations gaz)")
      case None
      then have "\<forall>e\<in>set gaz. \<not> ?P e" by (auto simp: find_None_iff sorted_locations_def)
      then show ?thesis using x False None by (auto simp: is_in_indonesia_def)
    next
      case (Some e)
      note f = find_sorted_locations [OF Some]
      have r: "is_in_indonesia gaz jud ring \<longleftrightarrow> e \<noteq> []"
        using x False Some by (simp add: is_in_indonesia_def title_empty)
      show ?thesis
      proof
        assume "is_in_indonesia gaz jud ring"
        then have "e \<noteq> []" using r by simp
        then show "search di_indonesia body \<or>
            (\<exists>e\<in>set gaz. e \<noteq> ''indonesia'' \<and> e \<noteq> [] \<and> search (whole_word e) body)"
          using f by blast
      next
        assume "search di_indonesia body \<or>
            (\<exists>e\<in>set gaz. e \<noteq> ''indonesia'' \<and> e \<noteq> [] \<and> search (whole_word e) body)"
        then obtain e' where e': "e' \<in> set gaz" "?P e'" "e' \<noteq> []" using False by blast
        then have "length e' \<le> length e" using f by blast
        then have "e \<noteq> []" using e'(3) by auto
        then show "is_in_indonesia gaz jud ring" using r by simp
      qed
    qed
  qed
qed

text \<open>
  The claims as they were stated fail on the text \<open>Gempa Indonesia\<close>: the gazetteer
  entry \<open>indonesia\<close> matches it as a whole word, the phrase \<open>di indonesia\<close> does not,
  and the location is empty.
\<close>

theorem is_in_indonesia_counterexample:
  "\<not> is_in_indonesia (load_lokasi_keywords None) (Some ''Gempa Indonesia'') None \<and>
   ''indonesia'' \<in> set (load_lokasi_keywords None) \<and>
   search (whole_word ''indonesia'') (lower (''Gempa Indonesia'' @ '' '' @ []))"
  by code_simp

theorem extract_location_counterexample:
  "extract_location (load_lokasi_keywords None) (Some ''Gempa Indonesia'') None = [] \<and>
   ''indonesia'' \<in> set (load_lokasi_keywords None) \<and>
   search (whole_word ''indonesia'') (lower (''Gempa Indonesia'' @ '' '' @ [])) \<and>
   title ''indonesia'' = ''Indonesia''"
  by code_simp


theorem extract_location_longest_witness:
  "\<exists>e\<in>set [''jawa'', ''bali'', ''jawa barat''].
      (\<forall>e'\<in>set [''jawa'', ''bali'', ''jawa barat''].
         e' \<noteq> ''indonesia'' \<and>
         search (whole_word e')
           (lower (str_or_empty (Some ''Gempa di Jawa Barat'') @ '' '' @ str_or_empty None)) \<longrightarrow>
         length e' \<le> length e) \<and>
      extract_location [''jawa'', ''bali'', ''jawa barat''] (Some ''Gempa di Jawa Barat'') None
        = title e"
proof -
  have n: "\<not> search di_indonesia
      (lower (str_or_empty (Some ''Gempa di Jawa Barat'') @ '' '' @ str_or_empty None))"
    by code_simp
  have m: "search (whole_word ''jawa'')
      (lower (str_or_empty (Some ''Gempa di Jawa Barat'') @ '' '' @ str_or_empty None))"
    by code_simp
  have h: "\<exists>e\<in>set [''jawa'', ''bali'', ''jawa barat'']. e \<noteq> ''indonesia'' \<and>
      search (whole_word e)
        (lower (str_or_empty (Some ''Gempa di Jawa Barat'') @ '' '' @ str_or_empty None))"
    using m by simp
  show ?thesis
    using extract_location_longest [OF refl, where gaz = "[''jawa'', ''bali'', ''jawa barat'']"
      and jud = "Some ''Gempa di Jawa Barat''" and ring = None] n h
    by blast
qed

theorem is_in_indonesia_iff_witness:
  "is_in_indonesia [''jawa'', ''bali'', ''jawa barat''] (Some ''Gempa di Jawa Barat'') None"
proof -
  have m: "search (whole_word ''jawa'')
      (lower (str_or_empty (Some ''Gempa di Jawa Barat'') @ '' '' @ str_or_empty None))"
    by code_simp
  have h: "\<exists>e\<in>set [''jawa'', ''bali'', ''jawa barat'']. e \<noteq> ''indonesia'' \<and> e \<noteq> [] \<and>
      search (whole_word e)
        (lower (str_or_empty (Some ''Gempa di Jawa Barat'') @ '' '' @ str_or_empty None))"
    using m by simp
  show ?thesis
    using is_in_indonesia_iff [OF refl, where gaz = "[''jawa'', ''bali'', ''jawa barat'']"
      and jud = "Some ''Gempa di Jawa Barat''" and ring = None] h
    by blast
qed

subsection \<open>What the two patterns match\<close>

text \<open>
  A whole-word match of \<open>w\<close> is an occurrence of \<open>w\<close> in the text with a word boundary
  at both ends; a match of the phrase is an occurrence of \<open>di\<close>, a non-empty run of
  whitespace and \<open>indonesia\<close>, with a word boundary at both ends.
\<close>

lemma list_ex_upt_Suc: "list_ex P [m..<Suc n] \<longleftrightarrow> (\<exists>i. m \<le> i \<and> i \<le> n \<and> P i)"
proof -
  have "set [m..<Suc n] = {i. m \<le> i \<and> i \<le> n}" by (auto simp del: upt_Suc)
  then show ?thesis unfolding list_ex_iff by blast
qed

lemma occurs_at:
  "take (length w) (drop i body) = w \<and> i \<le> length body \<longleftrightarrow>
   (\<exists>ps ss. body = ps @ w @ ss \<and> length ps = i)"
proof
  assume a: "take (length w) (drop i body) = w \<and> i \<le> length body"
  have "body = take i body @ (take (length w) (drop i body) @ drop (length w) (drop i body))"
    by (simp only: append_take_drop_id)
  then have "body = take i body @ w @ drop (length w) (drop i body)" using a by simp
  moreover have "length (take i body) = i" using a by simp
  ultimately show "\<exists>ps ss. body = ps @ w @ ss \<and> length ps = i" by blast
next
  assume "\<exists>ps ss. body = ps @ w @ ss \<and> length ps = i"
  then show "take (length w) (drop i body) = w \<and> i \<le> length body" by auto
qed

lemma search_whole_word:
  "search (whole_word w) body \<longleftrightarrow>
   (\<exists>ps ss. body = ps @ w @ ss \<and> at_boundary body (length ps) \<and>
      at_boundary body (length ps + length w))"
proof -
  have "search (whole_word w) body \<longleftrightarrow>
      (\<exists>i. (take (length w) (drop i body) = w \<and> i \<le> length body) \<and>
         at_boundary body i \<and> at_boundary body (i + length w))"
    unfolding search_def whole_word_def list_ex_upt_Suc by auto
  also have "\<dots> \<longleftrightarrow> (\<exists>ps ss. body = ps @ w @ ss \<and> at_boundary body (length ps) \<and>
      at_boundary body (length ps + length w))"
    unfolding occurs_at by blast
  finally show ?thesis .
qed


lemma prefix_at: "take (length w) xs = w \<longleftrightarrow> (\<exists>ss. xs = w @ ss)"
  by (metis append_eq_conv_conj append_take_drop_id)

lemma spaces_prefix:
  "1 \<le> k \<and> k \<le> length (takeWhile isspace xs) \<longleftrightarrow>
   (\<exists>ws ss. xs = ws @ ss \<and> ws \<noteq> [] \<and> (\<forall>c\<in>set ws. isspace c) \<and> length ws = k)"
proof
  assume k: "1 \<le> k \<and> k \<le> length (takeWhile isspace xs)"
  let ?t = "takeWhile isspace xs"
  have x: "xs = take k ?t @ (drop k ?t @ dropWhile isspace xs)"
    by (simp only: append_assoc [symmetric] append_take_drop_id takeWhile_dropWhile_id)
  have "\<forall>c\<in>set (take k ?t). isspace c" by (meson in_set_takeD set_takeWhileD)
  moreover have "length (take k ?t) = k" using k by simp
  moreover have "take k ?t \<noteq> []" using k calculation(2) by auto
  ultimately show "\<exists>ws ss. xs = ws @ ss \<and> ws \<noteq> [] \<and> (\<forall>c\<in>set ws. isspace c) \<and> length ws = k"
    using x by blast
next
  assume "\<exists>ws ss. xs = ws @ ss \<and> ws \<noteq> [] \<and> (\<forall>c\<in>set ws. isspace c) \<and> length ws = k"
  then obtain ws ss where w: "xs = ws @ ss" "ws \<noteq> []" "\<forall>c\<in>set ws. isspace c" "length ws = k"
    by blast
  have "length ws \<le> length (takeWhile isspace xs)"
    unfolding w(1) using w(3) by (simp add: takeWhile_append2)
  moreover have "1 \<le> length ws" using w(2) by (cases ws) auto
  ultimately show "1 \<le> k \<and> k \<le> length (takeWhile isspace xs)" using w(4) by simp
qed

lemma search_di_indonesia:
  "search di_indonesia body \<longleftrightarrow>
   (\<exists>ps ws ss. body = ps @ ''di'' @ ws @ ''indonesia'' @ ss \<and> ws \<noteq> [] \<and>
      (\<forall>c\<in>set ws. isspace c) \<and> at_boundary body (length ps) \<and>
      at_boundary body (length ps + 2 + length ws + 9))"
proof
  have l2: "length ''di'' = 2" by simp
  have l9: "length ''indonesia'' = 9" by simp
  assume "search di_indonesia body"
  then have "\<exists>i. 0 \<le> i \<and> i \<le> length body \<and>
      (at_boundary body i \<and> take (length ''di'') (drop i body) = ''di'' \<and>
       (\<exists>k. 1 \<le> k \<and> k \<le> length (takeWhile isspace (drop (i + length ''di'') body)) \<and>
          (take (length ''indonesia'') (drop (i + length ''di'' + k) body) = ''indonesia'' \<and>
           at_boundary body (i + length ''di'' + k + length ''indonesia'') \<and> True)))"
    unfolding search_def di_indonesia_def match_here.simps list_ex_upt_Suc .
  then obtain i k where i: "i \<le> length body" "at_boundary body i"
      "take (length ''di'') (drop i body) = ''di''"
    and k0: "1 \<le> k \<and> k \<le> length (takeWhile isspace (drop (i + length ''di'') body))"
      "take (length ''indonesia'') (drop (i + length ''di'' + k) body) = ''indonesia''"
      "at_boundary body (i + length ''di'' + k + length ''indonesia'')"
    by blast
  have k: "1 \<le> k \<and> k \<le> length (takeWhile isspace (drop (i + 2) body))"
      "take (length ''indonesia'') (drop (i + 2 + k) body) = ''indonesia''"
      "at_boundary body (i + 2 + k + 9)"
    using k0 unfolding l2 l9 by blast+
  obtain ps r1 where p: "body = ps @ ''di'' @ r1" "length ps = i"
    using i(1,3) occurs_at [of "''di''" i body] by blast
  have d1: "drop (i + 2) body = r1" unfolding p(1) using p(2) by simp
  obtain ws r2 where w: "r1 = ws @ r2" "ws \<noteq> []" "\<forall>c\<in>set ws. isspace c" "length ws = k"
    using k(1) unfolding d1 spaces_prefix by blast
  have d2: "drop (i + 2 + k) body = r2" unfolding p(1) w(1) using p(2) w(4) by simp
  obtain ss where s: "r2 = ''indonesia'' @ ss"
    using k(2) unfolding d2 prefix_at by blast
  have "body = ps @ ''di'' @ ws @ ''indonesia'' @ ss" unfolding p(1) w(1) s by simp
  then show "\<exists>ps ws ss. body = ps @ ''di'' @ ws @ ''indonesia'' @ ss \<and> ws \<noteq> [] \<and>
      (\<forall>c\<in>set ws. isspace c) \<and> at_boundary body (length ps) \<and>
      at_boundary body (length ps + 2 + length ws + 9)"
    using w(2,3) i(2) k(3) p(2) w(4) by blast
next
  assume "\<exists>ps ws ss. body = ps @ ''di'' @ ws @ ''indonesia'' @ ss \<and> ws \<noteq> [] \<and>
      (\<forall>c\<in>set ws. isspace c) \<and> at_boundary body (length ps) \<and>
      at_boundary body (length ps + 2 + length ws + 9)"
  then obtain ps ws ss where b: "body = ps @ ''di'' @ ws @ ''indonesia'' @ ss" "ws \<noteq> []"
      "\<forall>c\<in>set ws. isspace c" "at_boundary body (length ps)"
      "at_boundary body (length ps + 2 + length ws + 9)"
    by blast
  have l2: "length ''di'' = 2" by simp
  have l9: "length ''indonesia'' = 9" by simp
  have d1: "drop (length ps + 2) body = ws @ ''indonesia'' @ ss" unfolding b(1) by simp
  have d2: "drop (length ps + 2 + length ws) body = ''indonesia'' @ ss" unfolding b(1) by simp
  have k: "1 \<le> length ws \<and> length ws \<le> length (takeWhile isspace (drop (length ps + 2) body))"
    unfolding d1 spaces_prefix using b(2,3) by blast
  have "match_here di_indonesia body (length ps)"
    unfolding di_indonesia_def match_here.simps list_ex_upt_Suc
  proof (intro conjI exI [of _ "length ws"])
    show "at_boundary body (length ps)" by (rule b(4))
    show "take (length ''di'') (drop (length ps) body) = ''di''" unfolding b(1) by simp
    show "1 \<le> length ws" using k by simp
    show "length ws \<le> length (takeWhile isspace (drop (length ps + length ''di'') body))"
      using k unfolding l2 by blast
    show "take (length ''indonesia'') (drop (length ps + length ''di'' + length ws) body)
        = ''indonesia''"
      unfolding l2 d2 by simp
    show "at_boundary body (length ps + length ''di'' + length ws + length ''indonesia'')"
      unfolding l2 l9 by (rule b(5))
  qed simp
  moreover have "length ps \<le> length body" unfolding b(1) by simp
  ultimately show "search di_indonesia body"
    unfolding search_def list_ex_upt_Suc by blast
qed

end
